theory Spec2Isabelle
  imports Complex_Main "HOL-Library.Multiset"
begin

section \<open>The leaderboard script: values\<close>

text \<open>
  A JavaScript string is modelled as the list of its code units, restricted to the
  code units below 256 (the Latin-1 block), which is what \<^typ>\<open>char\<close> holds.
  \<open>undefined\<close> (the value of a missing property) is \<^term>\<open>None\<close>.

  A JavaScript number is \<open>NaN\<close>, an infinity, or a finite binary64 value, which
  is carried as the rational number it denotes (the two zeros are one value: they
  compare equal and print alike). What the code computes is rounded to binary64, as
  written out below: \<open>parseFloat\<close> rounds the decimal it reads, and the subtraction
  of the comparator of the sort rounds the difference.
\<close>

datatype number = NaN | NegInf | Fin rat | PosInf

fun isNaN :: "number \<Rightarrow> bool" where
  "isNaN NaN = True"
| "isNaN _ = False"

fun negate :: "number \<Rightarrow> number" where
  "negate NaN = NaN"
| "negate NegInf = PosInf"
| "negate (Fin a) = Fin (- a)"
| "negate PosInf = NegInf"

text \<open>\<open>v > 0\<close> on numbers; false for \<open>NaN\<close>.\<close>

fun positive :: "number \<Rightarrow> bool" where
  "positive PosInf = True"
| "positive (Fin a) = (0 < a)"
| "positive _ = False"

text \<open>The order of the numbers that are not \<open>NaN\<close>: \<open>x \<ge> y\<close>.\<close>

fun num_ge :: "number \<Rightarrow> number \<Rightarrow> bool" where
  "num_ge NaN _ = False"
| "num_ge _ NaN = False"
| "num_ge PosInf _ = True"
| "num_ge _ NegInf = True"
| "num_ge NegInf _ = False"
| "num_ge (Fin a) PosInf = False"
| "num_ge (Fin a) (Fin b) = (b \<le> a)"

subsection \<open>Rounding to binary64\<close>

text \<open>
  The Number value for a non-negative rational \<open>p / q\<close> (ECMAScript: the binary64
  value nearest to it, a tie going to the even significand, and \<open>Infinity\<close> when
  that is \<open>2 ^ 1024\<close>). With \<open>e\<close> the binary exponent of \<open>p / q\<close>, the
  binary64 values around it are the multiples of \<open>2 ^ k\<close>, where \<open>k = e - 52\<close>
  for a normal value and \<open>k = -1074\<close> below the normal range.
\<close>

fun floorLog2 :: "nat \<Rightarrow> nat" where
  "floorLog2 n = (if n < 2 then 0 else Suc (floorLog2 (n div 2)))"

declare floorLog2.simps [simp del]

definition scale2 :: "rat \<Rightarrow> int \<Rightarrow> rat" where
  "scale2 x k = (if 0 \<le> k then x * 2 ^ nat k else x / 2 ^ nat (- k))"

text \<open>
  For positive \<open>p\<close> and \<open>q\<close>: the \<open>e\<close> with \<open>2 ^ e \<le> p / q < 2 ^ (e + 1)\<close>. It
  is the difference \<open>d\<close> of the two floors of the logarithms, or one less.
\<close>

definition binaryExponent :: "nat \<Rightarrow> nat \<Rightarrow> int" where
  "binaryExponent p q =
     (let d = int (floorLog2 p) - int (floorLog2 q)
      in if q * 2 ^ nat d \<le> p * 2 ^ nat (- d) then d else d - 1)"

text \<open>The integer nearest to \<open>num / den\<close>, a tie going to the even one.\<close>

definition roundHalfEven :: "nat \<Rightarrow> nat \<Rightarrow> nat" where
  "roundHalfEven num den =
     (let f = num div den; r = num mod den
      in if 2 * r < den then f
         else if den < 2 * r then f + 1
         else if even f then f else f + 1)"

definition roundRatio :: "nat \<Rightarrow> nat \<Rightarrow> number" where
  "roundRatio p q =
     (if p = 0 then Fin 0
      else
        let k = max (binaryExponent p q) (- 1022) - 52;
            n = roundHalfEven (p * 2 ^ nat (- k)) (q * 2 ^ nat k);
            x = scale2 (of_nat n) k
        in if 2 ^ 1024 \<le> x then PosInf else Fin x)"

text \<open>The Number value for a rational: that of its absolute value, with its sign.\<close>

definition roundRat :: "rat \<Rightarrow> number" where
  "roundRat x =
     (let p = fst (quotient_of x); q = snd (quotient_of x)
      in if p < 0 then negate (roundRatio (nat (- p)) (nat q)) else roundRatio (nat p) (nat q))"

text \<open>
  The subtraction \<open>x - y\<close> of two numbers: the difference of two finite numbers is
  rounded, and may be an infinity.
\<close>

fun minus_number :: "number \<Rightarrow> number \<Rightarrow> number" where
  "minus_number NaN _ = NaN"
| "minus_number _ NaN = NaN"
| "minus_number PosInf PosInf = NaN"
| "minus_number NegInf NegInf = NaN"
| "minus_number PosInf _ = PosInf"
| "minus_number NegInf _ = NegInf"
| "minus_number (Fin a) PosInf = NegInf"
| "minus_number (Fin a) NegInf = PosInf"
| "minus_number (Fin a) (Fin b) = roundRat (a - b)"

text \<open>
  A finite binary64 value is a multiple of the least positive one, \<open>2 ^ -1074\<close>.
  This much of the format is what the properties of the sort rest on.
\<close>

definition onGrid :: "number \<Rightarrow> bool" where
  "onGrid v = (case v of Fin x \<Rightarrow> \<exists>m::int. x = of_int m / 2 ^ 1074 | _ \<Rightarrow> True)"

subsection \<open>Strings: white space, \<open>trim\<close>, \<open>split\<close>, \<open>join\<close>\<close>

text \<open>
  The white space and line terminators of ECMAScript among the code units below 256:
  TAB, LF, VT, FF, CR, SP and NBSP.
\<close>

definition is_space :: "char \<Rightarrow> bool" where
  "is_space c = (c = CHR 0x09 \<or> c = CHR 0x0A \<or> c = CHR 0x0B \<or> c = CHR 0x0C
     \<or> c = CHR 0x0D \<or> c = CHR 0x20 \<or> c = CHR 0xA0)"

definition trimStart :: "string \<Rightarrow> string" where
  "trimStart s = dropWhile is_space s"

definition trimEnd :: "string \<Rightarrow> string" where
  "trimEnd s = rev (dropWhile is_space (rev s))"

text \<open>\<open>String.prototype.trim\<close>.\<close>

definition trim :: "string \<Rightarrow> string" where
  "trim s = trimEnd (trimStart s)"

text \<open>
  \<open>Array.prototype.join\<close> on an array of strings and \<open>undefined\<close>: an
  \<open>undefined\<close> element contributes the empty string.
\<close>

definition elementText :: "string option \<Rightarrow> string" where
  "elementText v = (case v of None \<Rightarrow> [] | Some s \<Rightarrow> s)"

fun join :: "string \<Rightarrow> string option list \<Rightarrow> string" where
  "join sep [] = []"
| "join sep [x] = elementText x"
| "join sep (x # y # ys) = elementText x @ sep @ join sep (y # ys)"

subsection \<open>\<open>parseFloat\<close>\<close>

text \<open>
  \<open>parseFloat\<close> is a built-in. ECMAScript: convert the argument to a string
  (\<open>undefined\<close> becomes the text \<open>undefined\<close>), drop leading white space, take the
  longest prefix that is a \<open>StrDecimalLiteral\<close> (an optional sign, then \<open>Infinity\<close> or
  decimal digits with an optional fraction and an optional exponent), and return its
  value; \<open>NaN\<close> when no prefix is one.
\<close>

definition ToString :: "string option \<Rightarrow> string" where
  "ToString v = (case v of None \<Rightarrow> ''undefined'' | Some s \<Rightarrow> s)"

definition isDigit :: "char \<Rightarrow> bool" where
  "isDigit c = (48 \<le> (of_char c :: nat) \<and> (of_char c :: nat) \<le> 57)"

definition digitsValue :: "string \<Rightarrow> nat" where
  "digitsValue ds = foldl (\<lambda>a c. 10 * a + (of_char c - 48)) 0 ds"

text \<open>\<open>SignedInteger\<close>: the digits after an optional sign; \<open>None\<close> without a digit.\<close>

definition signedInteger :: "string \<Rightarrow> int option" where
  "signedInteger r =
     (let sgn = (case r of c # _ \<Rightarrow> if c = CHR ''-'' then - 1 else 1 | [] \<Rightarrow> (1::int));
          r' = (case r of c # t \<Rightarrow> if c = CHR ''-'' \<or> c = CHR ''+'' then t else r | [] \<Rightarrow> []);
          ds = takeWhile isDigit r'
      in if ds = [] then None else Some (sgn * int (digitsValue ds)))"

text \<open>\<open>ExponentPart\<close>, optional: the exponent, 0 when no exponent part follows.\<close>

definition exponentPart :: "string \<Rightarrow> int" where
  "exponentPart r =
     (case r of
        [] \<Rightarrow> 0
      | c # t \<Rightarrow>
          if c = CHR ''e'' \<or> c = CHR ''E''
          then (case signedInteger t of None \<Rightarrow> 0 | Some e \<Rightarrow> e)
          else 0)"

text \<open>
  The Number value for \<open>n * 10 ^ e\<close>. (ECMAScript lets an implementation replace
  the digits after the 20th significant one by zeros; the engines in use round the
  decimal as written, which is what is modelled.)
\<close>

definition decimalToNumber :: "nat \<Rightarrow> int \<Rightarrow> number" where
  "decimalToNumber n e =
     (if 0 \<le> e then roundRatio (n * 10 ^ nat e) 1 else roundRatio n (10 ^ nat (- e)))"

text \<open>
  \<open>StrUnsignedDecimalLiteral\<close>: the value of the longest prefix that is one. The
  digits \<open>ip\<close> before and \<open>fp\<close> after the point, with the exponent \<open>x\<close>, denote
  the number written \<open>ip\<close> \<open>fp\<close> times ten to the power \<open>x - length fp\<close>.
\<close>

definition unsignedLiteral :: "string \<Rightarrow> number" where
  "unsignedLiteral s =
     (if take 8 s = ''Infinity'' then PosInf
      else
        let ip = takeWhile isDigit s;
            r1 = dropWhile isDigit s;
            dot = (case r1 of c # _ \<Rightarrow> c = CHR ''.'' | [] \<Rightarrow> False);
            fp = (if dot then takeWhile isDigit (tl r1) else []);
            r2 = (if dot then dropWhile isDigit (tl r1) else r1)
        in if ip = [] \<and> fp = [] then NaN
           else decimalToNumber (digitsValue (ip @ fp))
                  (exponentPart r2 - int (length fp)))"

definition parseFloat :: "string option \<Rightarrow> number" where
  "parseFloat v =
     (case trimStart (ToString v) of
        [] \<Rightarrow> NaN
      | c # r \<Rightarrow>
          if c = CHR ''-'' then negate (unsignedLiteral r)
          else if c = CHR ''+'' then unsignedLiteral r
          else unsignedLiteral (c # r))"

section \<open>The Transformer\<close>

text \<open>
  A Record is an object whose properties are strings: a map from header names to cell
  values. An Entry is the object \<open>{ name, dealership, score }\<close>; \<open>dealership\<close> is
  \<open>undefined\<close> when the \<open>||\<close> chain ends on a missing property.
\<close>

type_synonym row = "string \<rightharpoonup> string"

record entry =
  name :: string
  dealership :: "string option"
  score :: number

text \<open>Truthiness of a string or \<open>undefined\<close>: only a non-empty string is truthy.\<close>

definition truthy :: "string option \<Rightarrow> bool" where
  "truthy v = (case v of None \<Rightarrow> False | Some s \<Rightarrow> s \<noteq> [])"

text \<open>\<open>a || b\<close>.\<close>

definition or_else :: "string option \<Rightarrow> string option \<Rightarrow> string option" where
  "or_else a b = (if truthy a then a else b)"

definition firstName :: "row \<Rightarrow> string option" where
  "firstName r = or_else (or_else (r ''First Name'') (r ''First name'')) (r ''First'')"

definition lastName :: "row \<Rightarrow> string option" where
  "lastName r = or_else (or_else (r ''Last Name'') (r ''Last name'')) (r ''Last'')"

definition dealershipOf :: "row \<Rightarrow> string option" where
  "dealershipOf r = or_else (or_else (r ''Dealership'') (r ''Dealer'')) (r ''Company'')"

definition scoreStr :: "row \<Rightarrow> string option" where
  "scoreStr r = or_else (or_else (r ''Total Score'') (r ''Score'')) (r ''Total'')"

text \<open>The callback of \<open>rows.map\<close>.\<close>

definition toEntry :: "row \<Rightarrow> entry" where
  "toEntry r =
     (let sc = parseFloat (scoreStr r);
          nm = join '' '' (filter truthy [firstName r, lastName r])
      in \<lparr> name = nm, dealership = dealershipOf r,
           score = (if isNaN sc then Fin 0 else sc) \<rparr>)"

text \<open>The comparator \<open>(a, b) => b.score - a.score\<close>.\<close>

definition compareFn :: "entry \<Rightarrow> entry \<Rightarrow> number" where
  "compareFn a b = minus_number (score b) (score a)"

text \<open>
  \<open>Array.prototype.sort\<close> is a built-in. ECMAScript (2019 and later) requires it to be
  stable, and to order by the comparator when the comparator is consistent; a result
  \<open>v\<close> of the comparator puts its second argument first only when \<open>v > 0\<close>, and a
  \<open>NaN\<close> result counts as 0. It is modelled by the stable insertion sort; every
  stable sort returns the same list when the comparator is consistent, as it is on
  entries whose scores are not \<open>NaN\<close>.
\<close>

fun insertSorted :: "('a \<Rightarrow> 'a \<Rightarrow> number) \<Rightarrow> 'a \<Rightarrow> 'a list \<Rightarrow> 'a list" where
  "insertSorted cmp x [] = [x]"
| "insertSorted cmp x (y # ys) =
     (if positive (cmp x y) then y # insertSorted cmp x ys else x # y # ys)"

definition sortArray :: "('a \<Rightarrow> 'a \<Rightarrow> number) \<Rightarrow> 'a list \<Rightarrow> 'a list" where
  "sortArray cmp xs = foldr (insertSorted cmp) xs []"

definition transformData :: "row list \<Rightarrow> entry list" where
  "transformData rows = sortArray compareFn (map toEntry rows)"

section \<open>The Parser\<close>

text \<open>
  \<open>String.prototype.split\<close> with a one-character separator, and with the regular
  expression \<open>/\r?\n/\<close>: scanning from the left, a line feed, or a carriage return
  directly followed by a line feed, ends a piece. A split of a string is never empty:
  the empty string splits to one empty piece.
\<close>

fun consHead :: "char \<Rightarrow> string list \<Rightarrow> string list" where
  "consHead c [] = [[c]]"
| "consHead c (l # ls) = (c # l) # ls"

fun splitOn :: "char \<Rightarrow> string \<Rightarrow> string list" where
  "splitOn d [] = [[]]"
| "splitOn d (c # cs) = (if c = d then [] # splitOn d cs else consHead c (splitOn d cs))"

fun splitLines :: "string \<Rightarrow> string list" where
  "splitLines [] = [[]]"
| "splitLines [c] = (if c = CHR 0x0A then [[], []] else [[c]])"
| "splitLines (c # d # cs) =
     (if c = CHR 0x0A then [] # splitLines (d # cs)
      else if c = CHR 0x0D \<and> d = CHR 0x0A then [] # splitLines cs
      else consHead c (splitLines (d # cs)))"

text \<open>
  \<open>row[header] = value\<close> on an object created by \<open>{}\<close>. The property
  \<open>__proto__\<close> is an accessor inherited from \<open>Object.prototype\<close>, whose setter
  ignores a string: assigning to it creates no property.
\<close>

definition setProp :: "row \<Rightarrow> string \<Rightarrow> string \<Rightarrow> row" where
  "setProp r k v = (if k = ''__proto__'' then r else r(k \<mapsto> v))"

text \<open>\<open>cells[idx] || ''\<close>: an index past the end reads \<open>undefined\<close>.\<close>

definition cellOr :: "string list \<Rightarrow> nat \<Rightarrow> string" where
  "cellOr cells idx = (if idx < length cells then cells ! idx else [])"

text \<open>The \<open>headers.forEach((header, idx) => ...)\<close> of one line, from index \<open>idx\<close> on.\<close>

fun buildRow :: "string list \<Rightarrow> nat \<Rightarrow> string list \<Rightarrow> row \<Rightarrow> row" where
  "buildRow [] idx cells r = r"
| "buildRow (h # hs) idx cells r =
     buildRow hs (Suc idx) cells (setProp r h (trim (cellOr cells idx)))"

text \<open>The \<open>for\<close> loop over the lines after the first.\<close>

fun parseRows :: "string list \<Rightarrow> string list \<Rightarrow> row list" where
  "parseRows headers [] = []"
| "parseRows headers (l # ls) =
     (let cells = splitOn CHR '','' l
      in if length cells = 1 \<and> cells ! 0 = []
         then parseRows headers ls
         else buildRow headers 0 cells Map.empty # parseRows headers ls)"

definition parseCSV :: "string \<Rightarrow> row list" where
  "parseCSV csv =
     (case splitLines (trim csv) of
        [] \<Rightarrow> []
      | l0 # rest \<Rightarrow> parseRows (map trim (splitOn CHR '','' l0)) rest)"

section \<open>The Fetcher\<close>

text \<open>
  The network is a function from the requested address to what \<open>fetch\<close> does with
  it: the promise rejects with an error, or resolves with a response that has a status
  and a body, whose \<open>text()\<close> rejects (\<open>Inl\<close>) or resolves with the text
  (\<open>Inr\<close>). One call of \<open>fetchCSV\<close> requests pairwise different addresses, so a
  function of the address loses nothing. \<open>resp.ok\<close> is true for a status from 200
  to 299.
\<close>

datatype error = TypeError string | HTTP nat | UnableToFetch

datatype response = Rejected error | Resolved nat "error + string"

definition ok :: "nat \<Rightarrow> bool" where
  "ok status = (200 \<le> status \<and> status \<le> 299)"

text \<open>
  \<open>encodeURIComponent\<close> is a built-in: the letters, the digits and the marks
  \<open>- _ . ! ~ * ' ( )\<close> stay, every other code unit becomes the \<open>%XX\<close> escapes of
  its UTF-8 bytes (one byte below 128, two bytes from 128 to 255). It throws only on
  a lone surrogate, a code unit that is not among those modelled here.
\<close>

definition unreserved :: "char \<Rightarrow> bool" where
  "unreserved c =
     (let n = (of_char c :: nat)
      in (65 \<le> n \<and> n \<le> 90) \<or> (97 \<le> n \<and> n \<le> 122) \<or> (48 \<le> n \<and> n \<le> 57)
         \<or> c = CHR ''-'' \<or> c = CHR ''_'' \<or> c = CHR ''.'' \<or> c = CHR ''!'' \<or> c = CHR ''~''
         \<or> c = CHR ''*'' \<or> c = CHR 0x27 \<or> c = CHR ''('' \<or> c = CHR '')'')"

definition hexDigit :: "nat \<Rightarrow> char" where
  "hexDigit n = ''0123456789ABCDEF'' ! (n mod 16)"

definition percent :: "nat \<Rightarrow> string" where
  "percent b = [CHR ''%'', hexDigit (b div 16), hexDigit b]"

definition encodeChar :: "char \<Rightarrow> string" where
  "encodeChar c =
     (let n = (of_char c :: nat)
      in if unreserved c then [c]
         else if n < 128 then percent n
         else percent (192 + n div 64) @ percent (128 + n mod 64))"

definition encodeURIComponent :: "string \<Rightarrow> string" where
  "encodeURIComponent s = concat (map encodeChar s)"

definition proxies :: "string list" where
  "proxies = ['''', ''https://corsproxy.io/?'', ''https://api.allorigins.win/raw?url='']"

definition targetOf :: "string \<Rightarrow> string \<Rightarrow> string" where
  "targetOf prefix url = (if prefix \<noteq> [] then prefix @ encodeURIComponent url else url)"

text \<open>
  The \<open>for\<close> loop over the prefixes, with \<open>lastError\<close>. The result is what
  \<open>fetchCSV\<close> returns (\<open>Inr\<close>) or throws (\<open>Inl\<close>), together with the addresses
  requested, in the order of the requests.
\<close>

definition requested ::
  "string \<Rightarrow> (error + string) \<times> string list \<Rightarrow> (error + string) \<times> string list" where
  "requested target res = (fst res, target # snd res)"

fun tryProxies ::
  "(string \<Rightarrow> response) \<Rightarrow> string \<Rightarrow> string list \<Rightarrow> error option
     \<Rightarrow> (error + string) \<times> string list" where
  "tryProxies net url [] lastError =
     (Inl (case lastError of Some e \<Rightarrow> e | None \<Rightarrow> UnableToFetch), [])"
| "tryProxies net url (prefix # rest) lastError =
     (let target = targetOf prefix url
      in case net target of
           Rejected err \<Rightarrow> requested target (tryProxies net url rest (Some err))
         | Resolved status body \<Rightarrow>
             if \<not> ok status
             then requested target (tryProxies net url rest (Some (HTTP status)))
             else (case body of
                     Inl err \<Rightarrow> requested target (tryProxies net url rest (Some err))
                   | Inr text \<Rightarrow>
                       if text \<noteq> [] \<and> 0 < length (trim text)
                       then (Inr text, [target])
                       else requested target (tryProxies net url rest lastError)))"

definition fetchCSV ::
  "(string \<Rightarrow> response) \<Rightarrow> string \<Rightarrow> (error + string) \<times> string list" where
  "fetchCSV net url = tryProxies net url proxies None"

definition SHEET_CSV_URL :: string where
  "SHEET_CSV_URL = ''https://docs.google.com/spreadsheets/d/e/2PACX-1vSLR7bXsB-PSdKArkvh4vrTP3QCXg9SkvXL7wYD49VFomRw0UqmQiXeRxkJJ0Ei7Fpo8rz5UgT25gCw/pub?gid=1152586903&single=true&output=csv''"

section \<open>The Renderer\<close>

text \<open>
  A rendered table row, by what depends on the entry and its rank: the class added to
  the \<open>tr\<close>, the three colours of the badge, the rank shown after \<open>#\<close> in the badge,
  the text of the name, the text of the dealership (in the small span under the name
  and in its own cell; \<open>undefined\<close> assigned to \<open>textContent\<close> gives the empty
  text), and the number shown before \<open>%\<close> in the score cell. The class names and the
  colours of the score cell are the same in every row.
\<close>

record tr =
  rowClass :: string
  badgeBg :: string
  badgeBorder :: string
  badgeColor :: string
  badgeRank :: nat
  nameText :: string
  dealershipSmallText :: string
  dealerText :: string
  scoreValue :: number

text \<open>
  A child of the table body is a row rendered by this script or any other markup
  (what the page held before the first render).
\<close>

datatype node = Row tr | Other string

text \<open>
  The page: the children of the element with the id \<open>leaderboard-body\<close>, \<open>None\<close>
  when the document has no such element, and what was written to \<open>console.error\<close>
  after the fixed message.
\<close>

record page =
  leaderboard_body :: "node list option"
  console :: "error list"

text \<open>The body of \<open>data.forEach((entry, index) => ...)\<close> up to \<open>appendChild\<close>.\<close>

definition renderRow :: "entry \<Rightarrow> nat \<Rightarrow> tr" where
  "renderRow e index =
     (let rank = index + 1
      in \<lparr> rowClass =
             (if rank = 1 then ''rank-1'' else if rank = 2 then ''rank-2''
              else if rank = 3 then ''rank-3'' else ''rank-default''),
           badgeBg =
             (if rank = 1 then ''#3893B7'' else if rank = 2 then ''#E8F4F8''
              else if rank = 3 then ''#FCF7EF'' else ''#3893B7''),
           badgeBorder =
             (if rank = 1 then ''#21A4D2'' else if rank = 2 then ''#3893B7''
              else if rank = 3 then ''#21A4D2'' else ''#21A4D2''),
           badgeColor =
             (if rank = 1 then ''#FCF7EF'' else if rank = 2 then ''#3893B7''
              else if rank = 3 then ''#21A4D2'' else ''#FCF7EF''),
           badgeRank = rank,
           nameText = name e,
           dealershipSmallText = elementText (dealership e),
           dealerText = elementText (dealership e),
           scoreValue = score e \<rparr>)"

text \<open>\<open>data.forEach\<close> from index \<open>index\<close> on; \<open>kids\<close> are the children so far.\<close>

fun appendRows :: "entry list \<Rightarrow> nat \<Rightarrow> node list \<Rightarrow> node list" where
  "appendRows [] index kids = kids"
| "appendRows (e # es) index kids =
     appendRows es (Suc index) (kids @ [Row (renderRow e index)])"

definition renderLeaderboard :: "entry list \<Rightarrow> page \<Rightarrow> page" where
  "renderLeaderboard data pg =
     (case leaderboard_body pg of
        None \<Rightarrow> pg
      | Some kids \<Rightarrow> pg\<lparr>leaderboard_body := Some (appendRows data 0 [])\<rparr>)"

section \<open>The refresh cycle\<close>

text \<open>
  \<open>refreshLeaderboard\<close>: the four stages inside \<open>try\<close>; \<open>catch\<close> writes the
  error to the console. Only \<open>fetchCSV\<close> has a \<open>throw\<close>.
\<close>

definition refreshLeaderboard :: "(string \<Rightarrow> response) \<Rightarrow> page \<Rightarrow> page" where
  "refreshLeaderboard net pg =
     (case fst (fetchCSV net SHEET_CSV_URL) of
        Inl err \<Rightarrow> pg\<lparr>console := console pg @ [err]\<rparr>
      | Inr csv \<Rightarrow> renderLeaderboard (transformData (parseCSV csv)) pg)"

section \<open>Notions of the specification\<close>

text \<open>
  The specification's reading of the field resolution, "first present wins": the value
  of the first of the listed headers that the Record has.
\<close>

definition firstPresent :: "row \<Rightarrow> string list \<Rightarrow> string option" where
  "firstPresent r keys = (case filter (\<lambda>k. r k \<noteq> None) keys of [] \<Rightarrow> None | k # _ \<Rightarrow> r k)"

text \<open>The value of the first of the listed headers whose value is a non-empty string.\<close>

definition firstNonEmpty :: "row \<Rightarrow> string list \<Rightarrow> string option" where
  "firstNonEmpty r keys = (case filter (\<lambda>k. truthy (r k)) keys of [] \<Rightarrow> None | k # _ \<Rightarrow> r k)"

text \<open>
  A text has a leading numeric prefix when, after its leading white space and one
  optional sign, it begins with \<open>Infinity\<close>, with a digit, or with a point followed
  by a digit.
\<close>

definition startsNumeric :: "string \<Rightarrow> bool" where
  "startsNumeric t =
     (take 8 t = ''Infinity'' \<or>
      (case t of
         [] \<Rightarrow> False
       | c # r \<Rightarrow> isDigit c \<or> (c = CHR ''.'' \<and> (case r of [] \<Rightarrow> False | d # _ \<Rightarrow> isDigit d))))"

definition hasNumericPrefix :: "string \<Rightarrow> bool" where
  "hasNumericPrefix s =
     (case trimStart s of
        [] \<Rightarrow> False
      | c # r \<Rightarrow>
          if c = CHR ''-'' \<or> c = CHR ''+'' then startsNumeric r else startsNumeric (c # r))"

text \<open>A line is blank when it holds white space only; the empty line is blank.\<close>

definition blank :: "string \<Rightarrow> bool" where
  "blank l = list_all is_space l"

text \<open>The lines up to the last line that is not blank.\<close>

definition dropTrailingBlank :: "string list \<Rightarrow> string list" where
  "dropTrailingBlank ls = rev (dropWhile blank (rev ls))"

text \<open>
  What a strategy yields when its response is successful and its body is not empty:
  the promise resolves, the status is from 200 to 299, \<open>text()\<close> resolves, and the text
  is not blank (section 4.1 of the specification counts a body of white space as empty).
\<close>

definition usable :: "response \<Rightarrow> string option" where
  "usable resp =
     (case resp of
        Rejected err \<Rightarrow> None
      | Resolved status body \<Rightarrow>
          (case body of
             Inl err \<Rightarrow> None
           | Inr t \<Rightarrow> if ok status \<and> \<not> blank t then Some t else None))"

text \<open>The addresses of the strategies, in the declared order.\<close>

definition targets :: "string \<Rightarrow> string list" where
  "targets url = map (\<lambda>prefix. targetOf prefix url) proxies"

text \<open>One row per Entry, in the order of the list, the first with index 0.\<close>

definition rowsOf :: "entry list \<Rightarrow> node list" where
  "rowsOf data = map (\<lambda>(index, e). Row (renderRow e index)) (enumerate 0 data)"

subsection \<open>Sample inputs\<close>

text \<open>
  A network where the direct request is answered with status 404 and the first proxy
  with the body \<open>a,b\<close>; a network where every request fails; a text with a header
  line, two data lines and two empty lines, its lines ended by CR LF; an Entry.
\<close>

definition net1 :: "string \<Rightarrow> response" where
  "net1 t =
     (if t = ''http://h/s.csv'' then Resolved 404 (Inr ''Not Found'')
      else if t = ''https://corsproxy.io/?http%3A%2F%2Fh%2Fs.csv'' then Resolved 200 (Inr ''a,b'')
      else Rejected (TypeError ''Failed to fetch''))"

definition offline :: "string \<Rightarrow> response" where
  "offline t = Rejected (TypeError ''Failed to fetch'')"

definition sampleCsv :: string where
  "sampleCsv = ''First Name,Score'' @ [CHR 0x0D, CHR 0x0A] @ ''Ann, 88 '' @ [CHR 0x0D, CHR 0x0A]
     @ [CHR 0x0D, CHR 0x0A] @ ''Bo'' @ [CHR 0x0D, CHR 0x0A]"

definition sampleEntry :: "string \<Rightarrow> rat \<Rightarrow> entry" where
  "sampleEntry n s = \<lparr> name = n, dealership = Some ''Acme'', score = Fin s \<rparr>"

section \<open>Properties of the Transformer\<close>

subsection \<open>The rounding of \<open>parseFloat\<close>\<close>

lemma floorLog2_bounds: "0 < n \<Longrightarrow> 2 ^ floorLog2 n \<le> n \<and> n < 2 * 2 ^ floorLog2 n"
proof (induction n rule: floorLog2.induct)
  case (1 n)
  show ?case
  proof (cases "n < 2")
    case True
    with "1.prems" show ?thesis
      by (simp add: floorLog2.simps [of n])
  next
    case False
    then have "0 < n div 2" by simp
    with False "1.IH" have "2 ^ floorLog2 (n div 2) \<le> n div 2 \<and>
        n div 2 < 2 * 2 ^ floorLog2 (n div 2)"
      by simp
    with False show ?thesis
      by (simp add: floorLog2.simps [of n]) linarith
  qed
qed

lemma floorLog2_eq:
  assumes "2 ^ k \<le> n" and "n < 2 * 2 ^ k"
  shows "floorLog2 n = k"
proof -
  from assms(1) have "0 < n"
    by (metis not_gr_zero not_less_eq_eq power_eq_0_iff zero_neq_numeral le_zero_eq)
  then have b: "2 ^ floorLog2 n \<le> n" "n < 2 ^ Suc (floorLog2 n)"
    using floorLog2_bounds [of n] by simp_all
  from assms(1) b(2) have "(2::nat) ^ k < 2 ^ Suc (floorLog2 n)"
    by (rule le_less_trans)
  then have "k < Suc (floorLog2 n)"
    by (simp only: power_strict_increasing_iff one_less_numeral_iff semiring_norm)
  moreover from b(1) assms(2) have "(2::nat) ^ floorLog2 n < 2 ^ Suc k"
    by simp
  then have "floorLog2 n < Suc k"
    by (simp only: power_strict_increasing_iff one_less_numeral_iff semiring_norm)
  ultimately show ?thesis
    by simp
qed

text \<open>
  \<open>parseFloat\<close> rounds as the built-in does. Two texts that denote the same binary64
  value give the same number; a decimal beyond the largest binary64 value gives
  \<open>Infinity\<close> and one below half the least positive value gives 0; a tie goes to the
  even significand; the least positive and the largest finite value are reached.
\<close>

lemma floorLog2_1: "floorLog2 1 = 0" "floorLog2 (Suc 0) = 0"
  by (simp_all add: floorLog2.simps)

lemma floorLog2_ten_400: "floorLog2 (10 ^ 400) = 1328"
  by (rule floorLog2_eq) simp_all

lemma parseFloat_same_double:
  "parseFloat (Some ''0.1'') = Fin (3602879701896397 / 36028797018963968) \<and>
   parseFloat (Some ''0.10000000000000001'') = Fin (3602879701896397 / 36028797018963968)"
  by (simp add: parseFloat_def ToString_def trimStart_def is_space_def unsignedLiteral_def
      isDigit_def digitsValue_def exponentPart_def decimalToNumber_def roundRatio_def
      binaryExponent_def roundHalfEven_def scale2_def floorLog2.simps Let_def)

lemma parseFloat_overflow: "parseFloat (Some ''1e400'') = PosInf"
  using floorLog2_ten_400 floorLog2_1
  by (simp add: parseFloat_def ToString_def trimStart_def is_space_def unsignedLiteral_def
      isDigit_def digitsValue_def exponentPart_def signedInteger_def decimalToNumber_def
      roundRatio_def binaryExponent_def roundHalfEven_def scale2_def Let_def)

lemma parseFloat_underflow: "parseFloat (Some ''1e-400'') = Fin 0"
  using floorLog2_ten_400 floorLog2_1
  by (simp add: parseFloat_def ToString_def trimStart_def is_space_def unsignedLiteral_def
      isDigit_def digitsValue_def exponentPart_def signedInteger_def decimalToNumber_def
      roundRatio_def binaryExponent_def roundHalfEven_def scale2_def Let_def)

lemma parseFloat_tie_to_even: "parseFloat (Some ''9007199254740993'') = Fin (2 ^ 53)"
  by (simp add: parseFloat_def ToString_def trimStart_def is_space_def unsignedLiteral_def
      isDigit_def digitsValue_def exponentPart_def decimalToNumber_def roundRatio_def
      binaryExponent_def roundHalfEven_def scale2_def floorLog2.simps Let_def)

lemma floorLog2_ten_324: "floorLog2 (10 ^ 324) = 1076"
  by (rule floorLog2_eq) simp_all

lemma floorLog2_5: "floorLog2 5 = 2"
  by (rule floorLog2_eq) simp_all

lemma parseFloat_least_positive: "parseFloat (Some ''5e-324'') = Fin (1 / 2 ^ 1074)"
  using floorLog2_ten_324 floorLog2_5
  by (simp add: parseFloat_def ToString_def trimStart_def is_space_def unsignedLiteral_def
      isDigit_def digitsValue_def exponentPart_def signedInteger_def decimalToNumber_def
      roundRatio_def binaryExponent_def roundHalfEven_def scale2_def Let_def)

lemma floorLog2_largest: "floorLog2 (17976931348623157 * 10 ^ 292) = 1023"
  by (rule floorLog2_eq) simp_all

lemma parseFloat_largest:
  "parseFloat (Some ''1.7976931348623157e308'') = Fin ((2 ^ 53 - 1) * 2 ^ 971)"
  using floorLog2_largest floorLog2_1
  by (simp add: parseFloat_def ToString_def trimStart_def is_space_def unsignedLiteral_def
      isDigit_def digitsValue_def exponentPart_def signedInteger_def decimalToNumber_def
      roundRatio_def binaryExponent_def roundHalfEven_def scale2_def Let_def)

text \<open>Every finite result is a multiple of the least positive binary64 value.\<close>

lemma scale2_grid:
  assumes "- int g \<le> k"
  shows "\<exists>m::int. scale2 (of_nat n) k = of_int m / 2 ^ g"
proof (cases "0 \<le> k")
  case True
  have "scale2 (of_nat n) k = of_int (int n * 2 ^ nat k * 2 ^ g) / 2 ^ g"
    using True by (simp add: scale2_def)
  then show ?thesis ..
next
  case False
  define j where "j = nat (- k)"
  with assms False have j: "j \<le> g" "k = - int j" "0 < j"
    by simp_all
  then have "(2::rat) ^ g = 2 ^ j * 2 ^ (g - j)"
    by (simp flip: power_add)
  then have "scale2 (of_nat n) k = of_int (int n * 2 ^ (g - j)) / 2 ^ g"
    using j by (simp add: scale2_def)
  then show ?thesis ..
qed

lemma roundRatio_grid:
  assumes "roundRatio p q = Fin x"
  shows "\<exists>m::int. x = of_int m / 2 ^ 1074"
proof (cases "p = 0")
  case True
  with assms have "x = of_int 0 / 2 ^ 1074"
    by (simp add: roundRatio_def)
  then show ?thesis ..
next
  case False
  let ?k = "max (binaryExponent p q) (- 1022) - 52"
  from False assms have "x = scale2 (of_nat (roundHalfEven (p * 2 ^ nat (- ?k)) (q * 2 ^ nat ?k))) ?k"
    by (simp add: roundRatio_def Let_def split: if_splits)
  moreover have "- int 1074 \<le> ?k"
    by simp
  ultimately show ?thesis
    using scale2_grid [of 1074 ?k] by blast
qed

lemma unsignedLiteral_grid:
  "unsignedLiteral t = Fin x \<Longrightarrow> \<exists>m::int. x = of_int m / 2 ^ 1074"
  by (auto simp: unsignedLiteral_def decimalToNumber_def Let_def split: if_splits
      dest: roundRatio_grid)

lemma negate_grid:
  assumes "negate v = Fin x" and "\<And>y. v = Fin y \<Longrightarrow> \<exists>m::int. y = of_int m / 2 ^ 1074"
  shows "\<exists>m::int. x = of_int m / 2 ^ 1074"
proof (cases v)
  case (Fin y)
  with assms obtain m :: int where "y = of_int m / 2 ^ 1074" and "x = - y"
    by auto
  then have "x = of_int (- m) / 2 ^ 1074"
    by simp
  then show ?thesis ..
qed (use assms in auto)

lemma parseFloat_grid:
  assumes "parseFloat v = Fin x"
  shows "\<exists>m::int. x = of_int m / 2 ^ 1074"
proof (cases "trimStart (ToString v)")
  case Nil
  with assms show ?thesis by (simp add: parseFloat_def)
next
  case (Cons c r)
  show ?thesis
  proof (cases "c = CHR ''-''")
    case True
    with Cons assms have "negate (unsignedLiteral r) = Fin x"
      by (simp add: parseFloat_def)
    then show ?thesis
      using unsignedLiteral_grid by (rule negate_grid)
  next
    case False
    with Cons assms have "unsignedLiteral r = Fin x \<or> unsignedLiteral (c # r) = Fin x"
      by (simp add: parseFloat_def split: if_splits)
    then show ?thesis
      using unsignedLiteral_grid by blast
  qed
qed

lemma score_grid:
  assumes "score (toEntry r) = Fin x"
  shows "\<exists>m::int. x = of_int m / 2 ^ 1074"
proof (cases "isNaN (parseFloat (scoreStr r))")
  case True
  with assms have "x = of_int 0 / 2 ^ 1074"
    by (simp add: toEntry_def Let_def)
  then show ?thesis ..
next
  case False
  with assms show ?thesis
    using parseFloat_grid [of "scoreStr r" x] by (simp add: toEntry_def Let_def)
qed

lemma onGrid_score: "onGrid (score (toEntry r))"
  using score_grid [of r] by (auto simp: onGrid_def split: number.splits)

subsection \<open>The sign of a rounded difference\<close>

text \<open>
  Rounding keeps the sign of a number, and a number that is at least the least
  positive binary64 value is not rounded to 0. Two different binary64 values differ by
  at least that much, so their rounded difference has the sign of the exact one. (The
  difference itself is rounded: \<open>9007199254740992 - 0.5\<close> is \<open>9007199254740992\<close>.)
\<close>

lemma quotient_of_half: "quotient_of (18014398509481983 / 2) = (18014398509481983, 2)"
  by code_simp

lemma minus_number_rounds:
  "minus_number (Fin 9007199254740992) (Fin (1 / 2)) = Fin 9007199254740992"
  using quotient_of_half
  by (simp add: roundRat_def roundRatio_def binaryExponent_def roundHalfEven_def scale2_def
      floorLog2.simps Let_def)

lemma shift_le:
  fixes p q :: nat and k e :: int
  assumes "k \<le> e" and "q * 2 ^ nat e \<le> p * 2 ^ nat (- e)"
  shows "q * 2 ^ nat k \<le> p * 2 ^ nat (- k)"
proof -
  have "q * 2 ^ nat k \<le> q * 2 ^ nat e"
    using assms(1) by (simp add: nat_mono)
  also note assms(2)
  also have "p * 2 ^ nat (- e) \<le> p * 2 ^ nat (- k)"
    using assms(1) by (simp add: nat_mono)
  finally show ?thesis .
qed

lemma binaryExponent_lower:
  assumes "0 < p" and "0 < q"
  shows "q * 2 ^ nat (binaryExponent p q) \<le> p * 2 ^ nat (- binaryExponent p q)"
proof -
  define a where "a = floorLog2 p"
  define b where "b = floorLog2 q"
  have pa: "2 ^ a \<le> p" and qb: "q < 2 * 2 ^ b"
    using floorLog2_bounds [OF assms(1)] floorLog2_bounds [OF assms(2)] by (simp_all add: a_def b_def)
  let ?d = "int a - int b"
  show ?thesis
  proof (cases "q * 2 ^ nat ?d \<le> p * 2 ^ nat (- ?d)")
    case True
    then show ?thesis
      by (simp add: binaryExponent_def Let_def a_def b_def)
  next
    case False
    then have e: "binaryExponent p q = ?d - 1"
      by (simp add: binaryExponent_def Let_def a_def b_def)
    have "q * 2 ^ nat (?d - 1) \<le> p * 2 ^ nat (- (?d - 1))"
    proof (cases "b < a")
      case True
      then have n: "nat (?d - 1) = a - b - 1" "nat (- (?d - 1)) = 0"
        by simp_all
      have "q * 2 ^ (a - b - 1) \<le> 2 * 2 ^ b * 2 ^ (a - b - 1)"
        using qb by simp
      also have "\<dots> = 2 ^ (Suc b + (a - b - 1))"
        by (simp only: power_add power_Suc)
      also have "Suc b + (a - b - 1) = a"
        using True by simp
      finally show ?thesis
        using pa n by simp
    next
      case False
      then have n: "nat (?d - 1) = 0" "nat (- (?d - 1)) = Suc (b - a)"
        by simp_all
      have "q \<le> 2 * 2 ^ b"
        using qb by simp
      also have "(2::nat) * 2 ^ b = 2 ^ a * 2 ^ Suc (b - a)"
        using False by (simp flip: power_add)
      also have "\<dots> \<le> p * 2 ^ Suc (b - a)"
        using pa by (rule mult_le_mono1)
      finally show ?thesis
        using n by simp
    qed
    with e show ?thesis by simp
  qed
qed

lemma roundHalfEven_pos:
  assumes "0 < den" and "den \<le> num"
  shows "0 < roundHalfEven num den"
proof -
  from assms have "0 < num div den"
    by (simp add: div_greater_zero_iff)
  then show ?thesis
    by (simp add: roundHalfEven_def Let_def)
qed

lemma scale2_pos: "0 < n \<Longrightarrow> 0 < scale2 (of_nat n) k"
  by (simp add: scale2_def)

lemma scale2_nonneg: "0 \<le> scale2 (of_nat n) k"
  by (simp add: scale2_def)


lemma roundRatio_nonneg: "\<not> positive (negate (roundRatio p q))"
proof -
  have "\<not> 0 < - scale2 (of_nat n) k" for n k
    using scale2_nonneg [of n k] by simp
  then show ?thesis
    by (simp add: roundRatio_def Let_def)
qed

lemma roundRatio_positive:
  assumes "0 < p" and "0 < q" and "q \<le> p * 2 ^ 1074"
  shows "positive (roundRatio p q)"
proof -
  define e where "e = binaryExponent p q"
  define k where "k = max e (- 1022) - 52"
  define n where "n = roundHalfEven (p * 2 ^ nat (- k)) (q * 2 ^ nat k)"
  have "q * 2 ^ nat k \<le> p * 2 ^ nat (- k)"
  proof (cases "e < - 1022")
    case True
    then have "k = - 1074" by (simp add: k_def)
    then have "nat k = 0" "nat (- k) = 1074" by simp_all
    with assms(3) show ?thesis by (simp only: power_0 mult_1_right)
  next
    case False
    then have "k \<le> e" by (simp add: k_def)
    moreover have "q * 2 ^ nat e \<le> p * 2 ^ nat (- e)"
      unfolding e_def using assms(1,2) by (rule binaryExponent_lower)
    ultimately show ?thesis by (rule shift_le)
  qed
  moreover have "0 < q * 2 ^ nat k"
    using assms(2) by simp
  ultimately have "0 < n"
    unfolding n_def by (rule roundHalfEven_pos [rotated])
  then have "0 < scale2 (of_nat n) k"
    by (rule scale2_pos)
  moreover have "roundRatio p q = (if 2 ^ 1024 \<le> scale2 (of_nat n) k then PosInf else Fin (scale2 (of_nat n) k))"
    using assms(1) by (simp only: roundRatio_def Let_def n_def k_def e_def) simp
  ultimately show ?thesis
    by simp
qed

lemma roundRat_0: "roundRat 0 = Fin 0"
  by (simp add: roundRat_def roundRatio_def)

lemma positive_roundRat: "positive (roundRat x) \<Longrightarrow> 0 < x"
proof -
  assume a: "positive (roundRat x)"
  obtain p q where pq: "quotient_of x = (p, q)" by (cases "quotient_of x")
  then have q: "0 < q" by (rule quotient_of_denom_pos)
  from pq have x: "x = of_int p / of_int q" by (rule quotient_of_div)
  have "0 < p"
  proof (rule ccontr)
    assume "\<not> 0 < p"
    then consider "p < 0" | "p = 0" by linarith
    then show False
    proof cases
      case 1
      with a pq show False by (simp add: roundRat_def roundRatio_nonneg)
    next
      case 2
      with a pq show False by (simp add: roundRat_def roundRatio_def)
    qed
  qed
  with q x show ?thesis by simp
qed

lemma quotient_of_ge:
  assumes "1 / 2 ^ g \<le> x" and "quotient_of x = (p, q)"
  shows "0 < nat p \<and> 0 < nat q \<and> nat q \<le> nat p * 2 ^ g"
proof -
  from assms(2) have q: "0 < q" by (rule quotient_of_denom_pos)
  from assms(2) have x: "x = of_int p / of_int q" by (rule quotient_of_div)
  have "(0::rat) < 1 / 2 ^ g" by simp
  then have "0 < x" using assms(1) by (rule less_le_trans)
  with x q have p: "0 < p" by (simp add: zero_less_divide_iff)
  from assms(1) x q have "of_int q \<le> (of_int p :: rat) * 2 ^ g"
    by (simp add: field_simps)
  then have "of_int q \<le> (of_int (p * 2 ^ g) :: rat)"
    by simp
  then have "q \<le> p * 2 ^ g"
    by (simp only: of_int_le_iff)
  with p q have "nat q \<le> nat p * 2 ^ g"
    by (simp add: nat_le_iff)
  with p q show ?thesis by simp
qed

lemma roundRat_positive:
  assumes "1 / 2 ^ 1074 \<le> x"
  shows "positive (roundRat x)"
proof -
  obtain p q where pq: "quotient_of x = (p, q)" by (cases "quotient_of x")
  with assms have "0 < nat p \<and> 0 < nat q \<and> nat q \<le> nat p * 2 ^ 1074"
    by (rule quotient_of_ge)
  then have "positive (roundRatio (nat p) (nat q))" and "0 < p"
    using roundRatio_positive by (blast, simp)
  with pq show ?thesis
    by (simp add: roundRat_def)
qed

lemma grid_difference:
  fixes m n :: int
  assumes "a = of_int m / 2 ^ g" and "b = of_int n / 2 ^ g" and "a < b"
  shows "(1::rat) / 2 ^ g \<le> b - a"
proof -
  from assms have "m < n" by (simp add: divide_less_cancel)
  then have "1 \<le> n - m" by simp
  then have "(1::rat) \<le> of_int (n - m)"
    by (simp only: of_int_1_le_iff)
  moreover have "b - a = of_int (n - m) / 2 ^ g"
    by (simp add: assms(1,2) diff_divide_distrib)
  ultimately show ?thesis
    by (simp add: divide_le_cancel)
qed

subsection \<open>The sort\<close>

lemma length_insertSorted: "length (insertSorted cmp x ys) = Suc (length ys)"
  by (induction ys) simp_all

lemma length_sortArray: "length (sortArray cmp xs) = length xs"
  by (induction xs) (simp_all add: sortArray_def length_insertSorted)

lemma mset_insertSorted: "mset (insertSorted cmp x ys) = add_mset x (mset ys)"
  by (induction ys) simp_all

lemma mset_sortArray: "mset (sortArray cmp xs) = mset xs"
  by (induction xs) (simp_all add: sortArray_def mset_insertSorted)

lemma set_insertSorted: "set (insertSorted cmp x ys) = insert x (set ys)"
  by (induction ys) auto

lemma set_sortArray: "set (sortArray cmp xs) = set xs"
  by (metis mset_sortArray set_mset_mset)

text \<open>The comparator is positive only on different scores, and then the second is larger.\<close>

lemma positive_minus_number: "positive (minus_number b a) \<Longrightarrow> a \<noteq> b"
  by (cases a; cases b) (auto simp: roundRat_0)

lemma positive_ge: "positive (minus_number b a) \<Longrightarrow> num_ge b a"
  by (cases a; cases b) (auto dest: positive_roundRat)

lemma not_positive_ge:
  assumes "\<not> isNaN a" and "\<not> isNaN b" and "onGrid a" and "onGrid b"
    and "\<not> positive (minus_number b a)"
  shows "num_ge a b"
proof (cases a)
  case fa: (Fin x)
  show ?thesis
  proof (cases b)
    case fb: (Fin y)
    have "y \<le> x"
    proof (rule ccontr)
      assume "\<not> y \<le> x"
      then have "x < y" by simp
      moreover from assms(3,4) fa fb obtain m n :: int
        where "x = of_int m / 2 ^ 1074" and "y = of_int n / 2 ^ 1074"
        by (auto simp: onGrid_def)
      ultimately have "1 / 2 ^ 1074 \<le> y - x"
        by (simp only: grid_difference)
      then have "positive (roundRat (y - x))"
        by (rule roundRat_positive)
      with assms(5) fa fb show False by simp
    qed
    with fa fb show ?thesis by simp
  qed (use assms fa in auto)
next
  case NaN
  with assms show ?thesis by simp
next
  case NegInf
  with assms show ?thesis by (cases b) auto
next
  case PosInf
  with assms show ?thesis by (cases b) auto
qed

lemma num_ge_trans: "num_ge a b \<Longrightarrow> num_ge b c \<Longrightarrow> num_ge a c"
  by (cases a; cases b; cases c) auto

lemma sorted_insertSorted:
  assumes "sorted_wrt (\<lambda>a b. num_ge (score a) (score b)) ys"
    and "\<not> isNaN (score x)" and "\<forall>y \<in> set ys. \<not> isNaN (score y)"
    and "onGrid (score x)" and "\<forall>y \<in> set ys. onGrid (score y)"
  shows "sorted_wrt (\<lambda>a b. num_ge (score a) (score b)) (insertSorted compareFn x ys)"
  using assms
proof (induction ys)
  case Nil
  then show ?case by simp
next
  case (Cons y ys)
  show ?case
  proof (cases "positive (compareFn x y)")
    case True
    then have "num_ge (score y) (score x)"
      by (simp add: compareFn_def positive_ge)
    with True Cons show ?thesis
      by (auto simp: set_insertSorted)
  next
    case False
    with Cons.prems have xy: "num_ge (score x) (score y)"
      using not_positive_ge [of "score x" "score y"] by (simp add: compareFn_def)
    with Cons.prems have "\<forall>z \<in> set ys. num_ge (score x) (score z)"
      by (auto intro: num_ge_trans)
    with False xy Cons.prems show ?thesis by simp
  qed
qed

lemma sorted_sortArray:
  "\<forall>y \<in> set xs. \<not> isNaN (score y) \<Longrightarrow> \<forall>y \<in> set xs. onGrid (score y) \<Longrightarrow>
   sorted_wrt (\<lambda>a b. num_ge (score a) (score b)) (sortArray compareFn xs)"
proof (induction xs)
  case Nil
  then show ?case by (simp add: sortArray_def)
next
  case (Cons x xs)
  then show ?case
    using sorted_insertSorted [of "sortArray compareFn xs" x]
    by (simp add: sortArray_def set_sortArray [unfolded sortArray_def])
qed

text \<open>An insertion never passes an element of the same score: the sort is stable.\<close>

lemma filter_insertSorted:
  "filter (\<lambda>e. score e = v) (insertSorted compareFn x ys) =
     (if score x = v then x # filter (\<lambda>e. score e = v) ys else filter (\<lambda>e. score e = v) ys)"
  by (induction ys) (auto simp: compareFn_def dest: positive_minus_number)

lemma filter_sortArray:
  "filter (\<lambda>e. score e = v) (sortArray compareFn xs) = filter (\<lambda>e. score e = v) xs"
  by (induction xs) (simp_all add: sortArray_def filter_insertSorted)

lemma score_toEntry_not_NaN: "\<not> isNaN (score (toEntry r))"
  by (simp add: toEntry_def Let_def)

lemma toEntry_in_transformData: "r \<in> set rows \<Longrightarrow> toEntry r \<in> set (transformData rows)"
  by (simp add: transformData_def set_sortArray)

text \<open>
  Claim C1. For every sequence of Records, the scores of the list returned by
  \<open>transformData\<close> are non-increasing, and the entries of any one score stand in the
  order of their Records: the sort is stable.
\<close>

theorem transformData_sorted_stable:
  "sorted_wrt (\<lambda>a b. num_ge (score a) (score b)) (transformData rows) \<and>
   (\<forall>v. filter (\<lambda>e. score e = v) (transformData rows) =
        filter (\<lambda>e. score e = v) (map toEntry rows))"
  by (simp add: transformData_def sorted_sortArray filter_sortArray score_toEntry_not_NaN
      onGrid_score)

lemma quotient_of_example:
  "quotient_of (248598699430851379 / 36028797018963968) =
     (248598699430851379, 36028797018963968)"
  by code_simp

text \<open>
  Three Records, of which the first two have score texts that denote the same binary64
  value: they are tied and keep their order, after the Record with the larger score.
\<close>

theorem transformData_sorted_stable_witness:
  "score (toEntry [''First'' \<mapsto> ''A'', ''Score'' \<mapsto> ''0.1'']) =
     score (toEntry [''First'' \<mapsto> ''B'', ''Score'' \<mapsto> ''0.10000000000000001'']) \<and>
   map name (transformData
     [[''First'' \<mapsto> ''A'', ''Score'' \<mapsto> ''0.1''],
      [''First'' \<mapsto> ''B'', ''Score'' \<mapsto> ''0.10000000000000001''],
      [''First'' \<mapsto> ''C'', ''Score'' \<mapsto> ''7'']]) = [''C'', ''A'', ''B'']"
  using transformData_sorted_stable
    [of "[[''First'' \<mapsto> ''A'', ''Score'' \<mapsto> ''0.1''],
          [''First'' \<mapsto> ''B'', ''Score'' \<mapsto> ''0.10000000000000001''],
          [''First'' \<mapsto> ''C'', ''Score'' \<mapsto> ''7'']]"]
    parseFloat_same_double quotient_of_example
  by (simp add: transformData_def sortArray_def compareFn_def toEntry_def firstName_def
      lastName_def scoreStr_def dealershipOf_def or_else_def truthy_def elementText_def
      parseFloat_def [of "Some ''7''"] ToString_def trimStart_def is_space_def unsignedLiteral_def
      isDigit_def digitsValue_def exponentPart_def decimalToNumber_def roundRat_def
      roundRatio_def binaryExponent_def roundHalfEven_def scale2_def floorLog2.simps Let_def)

text \<open>
  Claim C10. For every sequence of Records, \<open>transformData\<close> returns a list of the
  same length, holding exactly the entries of the Records, each as often as it arises:
  no Record is filtered out or deduplicated.
\<close>

theorem transformData_length:
  "length (transformData rows) = length rows \<and>
   mset (transformData rows) = mset (map toEntry rows)"
  by (simp add: transformData_def length_sortArray mset_sortArray)

subsection \<open>The score\<close>

lemma isNaN_roundRatio: "\<not> isNaN (roundRatio p q)"
  by (simp add: roundRatio_def Let_def)

lemma isNaN_decimalToNumber: "\<not> isNaN (decimalToNumber n e)"
  by (simp add: decimalToNumber_def isNaN_roundRatio)

lemma unsignedLiteral_NaN: "isNaN (unsignedLiteral t) \<longleftrightarrow> \<not> startsNumeric t"
proof (cases "take 8 t = ''Infinity''")
  case True
  then show ?thesis by (simp add: unsignedLiteral_def startsNumeric_def)
next
  case False
  show ?thesis
  proof (cases t)
    case Nil
    then show ?thesis by (simp add: unsignedLiteral_def startsNumeric_def)
  next
    case (Cons c r)
    show ?thesis
    proof (cases "isDigit c")
      case True
      with Cons False show ?thesis
        by (simp add: unsignedLiteral_def startsNumeric_def isNaN_decimalToNumber Let_def)
    next
      case nd: False
      show ?thesis
      proof (cases r)
        case Nil
        with Cons False nd show ?thesis
          by (simp add: unsignedLiteral_def startsNumeric_def isNaN_decimalToNumber Let_def)
      next
        case (Cons d r')
        with \<open>t = c # r\<close> False nd show ?thesis
          by (simp add: unsignedLiteral_def startsNumeric_def isNaN_decimalToNumber Let_def)
      qed
    qed
  qed
qed

lemma isNaN_negate: "isNaN (negate n) = isNaN n"
  by (cases n) simp_all

text \<open>\<open>parseFloat\<close> gives \<open>NaN\<close> exactly on the texts without a leading numeric prefix.\<close>

lemma parseFloat_NaN: "isNaN (parseFloat (Some s)) \<longleftrightarrow> \<not> hasNumericPrefix s"
  by (simp add: parseFloat_def hasNumericPrefix_def ToString_def isNaN_negate
      unsignedLiteral_NaN split: list.splits)

lemma parseFloat_undefined: "parseFloat None = NaN"
  by (simp add: parseFloat_def ToString_def trimStart_def is_space_def unsignedLiteral_def
      isDigit_def Let_def)

text \<open>
  Claim C5. For every Record of the input whose resolved raw score text is missing
  (\<open>undefined\<close>) or has no leading numeric prefix, the score of its Entry is exactly 0,
  and the Entry is in the list that \<open>transformData\<close> returns. \<open>transformData\<close> has no
  \<open>throw\<close> and calls nothing that throws on a Record: it is a total function here.
\<close>

theorem unparsable_score_is_zero:
  assumes "r \<in> set rows"
    and "scoreStr r = None \<or> (\<exists>s. scoreStr r = Some s \<and> \<not> hasNumericPrefix s)"
  shows "score (toEntry r) = Fin 0 \<and> toEntry r \<in> set (transformData rows)"
proof -
  from assms(2) have "isNaN (parseFloat (scoreStr r))"
    by (auto simp: parseFloat_undefined parseFloat_NaN)
  then have "score (toEntry r) = Fin 0"
    by (simp add: toEntry_def Let_def)
  with assms(1) show ?thesis
    by (simp add: toEntry_in_transformData)
qed

text \<open>A Record whose only score cell reads \<open>n/a\<close>.\<close>

theorem unparsable_score_is_zero_witness:
  "scoreStr [''Score'' \<mapsto> ''n/a''] = Some ''n/a'' \<and> \<not> hasNumericPrefix ''n/a'' \<and>
   score (toEntry [''Score'' \<mapsto> ''n/a'']) = Fin 0 \<and>
   toEntry [''Score'' \<mapsto> ''n/a''] \<in> set (transformData [[''Score'' \<mapsto> ''n/a'']])"
proof -
  have h: "scoreStr [''Score'' \<mapsto> ''n/a''] = Some ''n/a'' \<and> \<not> hasNumericPrefix ''n/a''"
    by (simp add: scoreStr_def or_else_def truthy_def hasNumericPrefix_def trimStart_def
        is_space_def startsNumeric_def isDigit_def)
  with unparsable_score_is_zero [of "[''Score'' \<mapsto> ''n/a'']" "[[''Score'' \<mapsto> ''n/a'']]"]
  show ?thesis by simp
qed

subsection \<open>The resolution of the fields\<close>

text \<open>
  A chain \<open>r[a] || r[b] || r[c]\<close> is the first of the three values that is a non-empty
  string, and the value of \<open>r[c]\<close> when there is none.
\<close>

lemma or_chain:
  "or_else (or_else (r a) (r b)) (r c) =
     (case firstNonEmpty r [a, b, c] of None \<Rightarrow> r c | Some v \<Rightarrow> Some v)"
  by (auto simp: or_else_def firstNonEmpty_def truthy_def split: option.splits)

lemma or_chain_firstPresent:
  "r a \<noteq> Some [] \<Longrightarrow> r b \<noteq> Some [] \<Longrightarrow>
   or_else (or_else (r a) (r b)) (r c) = firstPresent r [a, b, c]"
  by (auto simp: or_else_def firstPresent_def truthy_def split: option.splits)

text \<open>
  Claim C3, as stated, fails: a header that is present with the empty string does not
  win. A Record with an empty \<open>Dealership\<close> and the \<open>Dealer\<close> Acme has the group Acme,
  where the first present header gives the empty string.
\<close>

theorem first_present_counterexample:
  "firstPresent [''Dealership'' \<mapsto> '''', ''Dealer'' \<mapsto> ''Acme'']
     [''Dealership'', ''Dealer'', ''Company''] = Some '''' \<and>
   dealership (toEntry [''Dealership'' \<mapsto> '''', ''Dealer'' \<mapsto> ''Acme'']) = Some ''Acme''"
  by (simp add: firstPresent_def toEntry_def Let_def dealershipOf_def or_else_def truthy_def)

text \<open>
  Claim C3, amended. For every Record, each field is resolved from the first of the
  listed headers whose value is a non-empty string: the two parts of the name (joined
  by one space, a part that is \<open>undefined\<close> or empty left out), the group and the raw
  score text. A header that is missing or holds the empty string is passed over; when
  none of the three holds a non-empty string, the field has the value of the last
  header (\<open>undefined\<close> or the empty string). Whenever neither of the first two headers
  holds the empty string, this is the first present header.
\<close>

theorem field_resolution:
  "firstName r = (case firstNonEmpty r [''First Name'', ''First name'', ''First''] of
                    None \<Rightarrow> r ''First'' | Some v \<Rightarrow> Some v) \<and>
   lastName r = (case firstNonEmpty r [''Last Name'', ''Last name'', ''Last''] of
                    None \<Rightarrow> r ''Last'' | Some v \<Rightarrow> Some v) \<and>
   name (toEntry r) = join '' '' (filter truthy [firstName r, lastName r]) \<and>
   dealership (toEntry r) = (case firstNonEmpty r [''Dealership'', ''Dealer'', ''Company''] of
                    None \<Rightarrow> r ''Company'' | Some v \<Rightarrow> Some v) \<and>
   scoreStr r = (case firstNonEmpty r [''Total Score'', ''Score'', ''Total''] of
                    None \<Rightarrow> r ''Total'' | Some v \<Rightarrow> Some v) \<and>
   (r ''First Name'' \<noteq> Some [] \<and> r ''First name'' \<noteq> Some [] \<longrightarrow>
      firstName r = firstPresent r [''First Name'', ''First name'', ''First'']) \<and>
   (r ''Last Name'' \<noteq> Some [] \<and> r ''Last name'' \<noteq> Some [] \<longrightarrow>
      lastName r = firstPresent r [''Last Name'', ''Last name'', ''Last'']) \<and>
   (r ''Dealership'' \<noteq> Some [] \<and> r ''Dealer'' \<noteq> Some [] \<longrightarrow>
      dealership (toEntry r) = firstPresent r [''Dealership'', ''Dealer'', ''Company'']) \<and>
   (r ''Total Score'' \<noteq> Some [] \<and> r ''Score'' \<noteq> Some [] \<longrightarrow>
      scoreStr r = firstPresent r [''Total Score'', ''Score'', ''Total''])"
  by (simp add: firstName_def lastName_def dealershipOf_def scoreStr_def toEntry_def Let_def
      or_chain_firstPresent flip: or_chain)

text \<open>A Record that uses the third, second, second and second alternative.\<close>

theorem field_resolution_witness:
  "[''First'' \<mapsto> ''Bo'', ''Last name'' \<mapsto> ''Ray'', ''Dealer'' \<mapsto> ''Acme'', ''Score'' \<mapsto> ''95'']
     ''Dealership'' \<noteq> Some [] \<and>
   [''First'' \<mapsto> ''Bo'', ''Last name'' \<mapsto> ''Ray'', ''Dealer'' \<mapsto> ''Acme'', ''Score'' \<mapsto> ''95'']
     ''Dealer'' \<noteq> Some [] \<and>
   firstName
     [''First'' \<mapsto> ''Bo'', ''Last name'' \<mapsto> ''Ray'', ''Dealer'' \<mapsto> ''Acme'', ''Score'' \<mapsto> ''95'']
     = firstPresent
        [''First'' \<mapsto> ''Bo'', ''Last name'' \<mapsto> ''Ray'', ''Dealer'' \<mapsto> ''Acme'', ''Score'' \<mapsto> ''95'']
        [''First Name'', ''First name'', ''First''] \<and>
   lastName
     [''First'' \<mapsto> ''Bo'', ''Last name'' \<mapsto> ''Ray'', ''Dealer'' \<mapsto> ''Acme'', ''Score'' \<mapsto> ''95'']
     = firstPresent
        [''First'' \<mapsto> ''Bo'', ''Last name'' \<mapsto> ''Ray'', ''Dealer'' \<mapsto> ''Acme'', ''Score'' \<mapsto> ''95'']
        [''Last Name'', ''Last name'', ''Last''] \<and>
   dealership (toEntry
     [''First'' \<mapsto> ''Bo'', ''Last name'' \<mapsto> ''Ray'', ''Dealer'' \<mapsto> ''Acme'', ''Score'' \<mapsto> ''95''])
     = firstPresent
        [''First'' \<mapsto> ''Bo'', ''Last name'' \<mapsto> ''Ray'', ''Dealer'' \<mapsto> ''Acme'', ''Score'' \<mapsto> ''95'']
        [''Dealership'', ''Dealer'', ''Company''] \<and>
   scoreStr
     [''First'' \<mapsto> ''Bo'', ''Last name'' \<mapsto> ''Ray'', ''Dealer'' \<mapsto> ''Acme'', ''Score'' \<mapsto> ''95'']
     = firstPresent
        [''First'' \<mapsto> ''Bo'', ''Last name'' \<mapsto> ''Ray'', ''Dealer'' \<mapsto> ''Acme'', ''Score'' \<mapsto> ''95'']
        [''Total Score'', ''Score'', ''Total''] \<and>
   dealership (toEntry
     [''First'' \<mapsto> ''Bo'', ''Last name'' \<mapsto> ''Ray'', ''Dealer'' \<mapsto> ''Acme'', ''Score'' \<mapsto> ''95''])
     = Some ''Acme'' \<and>
   name (toEntry
     [''First'' \<mapsto> ''Bo'', ''Last name'' \<mapsto> ''Ray'', ''Dealer'' \<mapsto> ''Acme'', ''Score'' \<mapsto> ''95''])
     = ''Bo Ray'' \<and>
   scoreStr
     [''First'' \<mapsto> ''Bo'', ''Last name'' \<mapsto> ''Ray'', ''Dealer'' \<mapsto> ''Acme'', ''Score'' \<mapsto> ''95'']
     = Some ''95''"
  using field_resolution
    [of "[''First'' \<mapsto> ''Bo'', ''Last name'' \<mapsto> ''Ray'', ''Dealer'' \<mapsto> ''Acme'', ''Score'' \<mapsto> ''95'']"]
  by (simp add: firstPresent_def firstNonEmpty_def truthy_def elementText_def)

text \<open>
  Claim C8. For every Record that has none of the first-name headers, the name of the
  Entry is the resolved last-name value alone (the empty text when that is
  \<open>undefined\<close>), with no separator before it.
\<close>

theorem last_name_only:
  assumes "r ''First Name'' = None" and "r ''First name'' = None" and "r ''First'' = None"
  shows "name (toEntry r) = elementText (lastName r)"
  using assms
  by (auto simp: toEntry_def Let_def firstName_def or_else_def truthy_def elementText_def
      split: option.splits)

text \<open>A Record with the last name Lee and no first name.\<close>

theorem last_name_only_witness:
  "[''Last Name'' \<mapsto> ''Lee'', ''Score'' \<mapsto> ''7''] ''First Name'' = None \<and>
   [''Last Name'' \<mapsto> ''Lee'', ''Score'' \<mapsto> ''7''] ''First name'' = None \<and>
   [''Last Name'' \<mapsto> ''Lee'', ''Score'' \<mapsto> ''7''] ''First'' = None \<and>
   lastName [''Last Name'' \<mapsto> ''Lee'', ''Score'' \<mapsto> ''7''] = Some ''Lee'' \<and>
   name (toEntry [''Last Name'' \<mapsto> ''Lee'', ''Score'' \<mapsto> ''7'']) = ''Lee''"
  using last_name_only [of "[''Last Name'' \<mapsto> ''Lee'', ''Score'' \<mapsto> ''7'']"]
  by (simp add: lastName_def or_else_def truthy_def elementText_def)

section \<open>Properties of the strings\<close>

subsection \<open>Blank texts and \<open>trim\<close>\<close>

lemma trimStart_Nil: "trimStart s = [] \<longleftrightarrow> blank s"
  by (simp add: trimStart_def blank_def list_all_iff)

lemma trimEnd_Nil: "trimEnd s = [] \<longleftrightarrow> blank s"
  by (simp add: trimEnd_def blank_def list_all_iff)

lemma blank_trimStart: "blank (trimStart s) \<longleftrightarrow> blank s"
  by (induction s) (simp_all add: trimStart_def blank_def)

lemma trim_Nil: "trim s = [] \<longleftrightarrow> blank s"
  by (simp add: trim_def trimEnd_Nil blank_trimStart)

lemma blank_Nil: "blank []"
  by (simp add: blank_def)

lemma is_space_LF: "is_space CHR 0x0A" and is_space_CR: "is_space CHR 0x0D"
  by (simp_all add: is_space_def)

lemma blank_append: "blank (a @ b) \<longleftrightarrow> blank a \<and> blank b"
  by (simp add: blank_def)

lemma blank_Cons: "blank (c # s) \<longleftrightarrow> is_space c \<and> blank s"
  by (simp add: blank_def)

lemma trimStart_blank_prefix: "blank a \<Longrightarrow> trimStart (a @ s) = trimStart s"
  by (simp add: trimStart_def blank_def dropWhile_append list_all_iff)

lemma trimEnd_blank_suffix: "blank b \<Longrightarrow> trimEnd (s @ b) = trimEnd s"
  by (simp add: trimEnd_def blank_def dropWhile_append list_all_iff)

lemma trimStart_append_nonblank: "\<not> blank s \<Longrightarrow> trimStart (s @ b) = trimStart s @ b"
  by (induction s) (simp_all add: trimStart_def blank_def)

lemma trim_blank_prefix: "blank a \<Longrightarrow> trim (a @ s) = trim s"
  by (simp add: trim_def trimStart_blank_prefix)

lemma trim_blank_suffix: "blank b \<Longrightarrow> trim (s @ b) = trim s"
proof (cases "blank s")
  case True
  assume "blank b"
  with True have "blank (s @ b)" by (simp add: blank_append)
  with True show ?thesis by (simp add: trim_Nil [THEN iffD2])
next
  case False
  assume "blank b"
  with False show ?thesis
    by (simp add: trim_def trimStart_append_nonblank trimEnd_blank_suffix)
qed

lemma trim_Nil_eq: "trim [] = []"
  by (simp add: trim_def trimStart_def trimEnd_def)

text \<open>Every string is its trimmed text between two blank strings.\<close>

lemma trimStart_decomp: "\<exists>a. s = a @ trimStart s \<and> blank a"
proof
  show "s = takeWhile is_space s @ trimStart s \<and> blank (takeWhile is_space s)"
    by (simp add: trimStart_def blank_def list_all_iff) (meson set_takeWhileD)
qed

lemma trimEnd_decomp: "\<exists>b. s = trimEnd s @ b \<and> blank b"
proof
  have "rev s = takeWhile is_space (rev s) @ dropWhile is_space (rev s)"
    by simp
  then have "s = rev (dropWhile is_space (rev s)) @ rev (takeWhile is_space (rev s))"
    by (metis rev_append rev_rev_ident)
  moreover have "blank (rev (takeWhile is_space (rev s)))"
    by (simp add: blank_def list_all_iff) (meson set_takeWhileD)
  ultimately show "s = trimEnd s @ rev (takeWhile is_space (rev s)) \<and>
      blank (rev (takeWhile is_space (rev s)))"
    by (simp add: trimEnd_def)
qed

lemma hd_trimStart: "trimStart s \<noteq> [] \<Longrightarrow> \<not> is_space (hd (trimStart s))"
  unfolding trimStart_def by (rule hd_dropWhile)

lemma last_trimEnd: "trimEnd s \<noteq> [] \<Longrightarrow> \<not> is_space (last (trimEnd s))"
  unfolding trimEnd_def
  by (metis hd_dropWhile last_rev rev_is_Nil_conv)

lemma trimEnd_self: "t \<noteq> [] \<Longrightarrow> \<not> is_space (last t) \<Longrightarrow> trimEnd t = t"
proof -
  assume "t \<noteq> []" and "\<not> is_space (last t)"
  then have "dropWhile is_space (rev t) = rev t"
    by (simp add: dropWhile_eq_self_iff hd_rev)
  then show ?thesis
    by (simp add: trimEnd_def)
qed

lemma trim_idem: "trim (trim s) = trim s"
proof (cases "trim s = []")
  case True
  then show ?thesis by (simp add: trim_Nil_eq)
next
  case False
  let ?u = "trimStart s"
  from False have t: "trimEnd ?u \<noteq> []"
    by (simp add: trim_def)
  obtain b where u: "?u = trimEnd ?u @ b"
    using trimEnd_decomp [of ?u] by blast
  with t have "?u \<noteq> []" by auto
  then have "\<not> is_space (hd ?u)"
    by (rule hd_trimStart)
  with u t have "\<not> is_space (hd (trimEnd ?u))"
    by (metis hd_append2)
  with t have "trimStart (trimEnd ?u) = trimEnd ?u"
    by (simp add: trimStart_def dropWhile_eq_self_iff)
  moreover from t have "\<not> is_space (last (trimEnd ?u))"
    by (rule last_trimEnd)
  with t have "trimEnd (trimEnd ?u) = trimEnd ?u"
    by (rule trimEnd_self)
  ultimately show ?thesis
    by (simp add: trim_def)
qed

subsection \<open>The splits\<close>

lemma consHead_not_Nil: "consHead c X \<noteq> []"
  by (cases X) simp_all

lemma splitOn_not_Nil: "splitOn d s \<noteq> []"
  by (induction s) (simp_all add: consHead_not_Nil)

lemma splitLines_not_Nil: "splitLines s \<noteq> []"
  by (induction s rule: splitLines.induct) (simp_all add: consHead_not_Nil)

lemma consHead_eq: "X \<noteq> [] \<Longrightarrow> consHead c X = (c # hd X) # tl X"
  by (cases X) simp_all

lemma consHead_pad:
  "X \<noteq> [] \<Longrightarrow>
   consHead c (butlast X @ [last X @ h] @ t) =
     butlast (consHead c X) @ [last (consHead c X) @ h] @ t"
  by (cases X rule: list.exhaust; cases "tl X") auto

lemma splitOn_Nil_iff: "splitOn d s = [[]] \<longleftrightarrow> s = []"
proof (cases s)
  case Nil
  then show ?thesis by simp
next
  case (Cons c cs)
  then show ?thesis
    using splitOn_not_Nil [of d cs] by (auto simp: consHead_eq)
qed

lemma skip_test: "(length cells = Suc 0 \<and> cells ! 0 = []) \<longleftrightarrow> cells = [[]]"
  by (cases cells) auto

lemma splitOn_no_separator: "d \<notin> set s \<Longrightarrow> splitOn d s = [s]"
  by (induction s) auto

lemma splitOn_append:
  "splitOn d (a @ b) =
     butlast (splitOn d a) @ [last (splitOn d a) @ hd (splitOn d b)] @ tl (splitOn d b)"
proof (induction a)
  case Nil
  then show ?case by (simp add: splitOn_not_Nil)
next
  case (Cons c a)
  then show ?case
    using consHead_pad [of "splitOn d a" c "hd (splitOn d b)" "tl (splitOn d b)"]
    by (simp add: splitOn_not_Nil)
qed

lemma splitLines_append:
  "a = [] \<or> last a \<noteq> CHR 0x0D \<or> b = [] \<or> hd b \<noteq> CHR 0x0A \<Longrightarrow>
   splitLines (a @ b) =
     butlast (splitLines a) @ [last (splitLines a) @ hd (splitLines b)] @ tl (splitLines b)"
proof (induction a rule: splitLines.induct)
  case 1
  then show ?case by (simp add: splitLines_not_Nil)
next
  case (2 c)
  then show ?case
    by (cases b) (auto simp: splitLines_not_Nil consHead_eq)
next
  case (3 c d cs)
  show ?case
  proof (cases "c = CHR 0x0A")
    case True
    with 3 show ?thesis by (simp add: splitLines_not_Nil)
  next
    case nl: False
    show ?thesis
    proof (cases "c = CHR 0x0D \<and> d = CHR 0x0A")
      case True
      from "3.prems" have "cs = [] \<or> last cs \<noteq> CHR 0x0D \<or> b = [] \<or> hd b \<noteq> CHR 0x0A"
        by (cases "cs = []") auto
      with "3.IH"(2) nl True have
        "splitLines (cs @ b) =
           butlast (splitLines cs) @ [last (splitLines cs) @ hd (splitLines b)]
             @ tl (splitLines b)"
        by blast
      with True nl show ?thesis by (simp add: splitLines_not_Nil)
    next
      case False
      with 3 nl have
        "splitLines ((d # cs) @ b) =
           butlast (splitLines (d # cs)) @ [last (splitLines (d # cs)) @ hd (splitLines b)]
             @ tl (splitLines b)"
        by auto
      moreover from False nl have "splitLines ((c # d # cs) @ b) = consHead c (splitLines ((d # cs) @ b))"
        by auto
      moreover from False nl have "splitLines (c # d # cs) = consHead c (splitLines (d # cs))"
        by auto
      ultimately show ?thesis
        using consHead_pad [of "splitLines (d # cs)" c "hd (splitLines b)" "tl (splitLines b)"]
        by (simp only: splitLines_not_Nil not_False_eq_True)
    qed
  qed
qed

lemma set_consHead: "l \<in> set (consHead c X) \<Longrightarrow> set l \<subseteq> insert c (\<Union>(set ` set X))"
  by (cases X) auto

lemma set_splitLines: "l \<in> set (splitLines s) \<Longrightarrow> set l \<subseteq> set s"
proof (induction s arbitrary: l rule: splitLines.induct)
  case 1
  then show ?case by simp
next
  case (2 c)
  then show ?case by (auto split: if_splits)
next
  case (3 c d cs)
  then show ?case
    by (fastforce split: if_splits dest!: set_consHead)
qed

lemma blank_splitLines: "blank s \<Longrightarrow> l \<in> set (splitLines s) \<Longrightarrow> blank l"
  using set_splitLines [of l s] by (auto simp: blank_def list_all_iff)

text \<open>The last line of a text that does not end in white space is not blank.\<close>

lemma last_consHead: "X \<noteq> [] \<Longrightarrow> last X \<noteq> [] \<Longrightarrow>
  last (consHead c X) \<noteq> [] \<and> last (last (consHead c X)) = last (last X)"
  by (cases X rule: list.exhaust; cases "tl X") auto

lemma last_splitLines:
  "s \<noteq> [] \<Longrightarrow> last s \<noteq> CHR 0x0A \<Longrightarrow>
   last (splitLines s) \<noteq> [] \<and> last (last (splitLines s)) = last s"
proof (induction s rule: splitLines.induct)
  case 1
  then show ?case by simp
next
  case (2 c)
  then show ?case by simp
next
  case (3 c d cs)
  show ?case
  proof (cases "c = CHR 0x0A")
    case True
    with 3 show ?thesis by (simp add: splitLines_not_Nil)
  next
    case nl: False
    show ?thesis
    proof (cases "c = CHR 0x0D \<and> d = CHR 0x0A")
      case True
      with "3.prems" have "cs \<noteq> []" by auto
      with True nl 3 show ?thesis by (simp add: splitLines_not_Nil)
    next
      case False
      with nl have e: "splitLines (c # d # cs) = consHead c (splitLines (d # cs))"
        by auto
      from False nl 3 have ih: "last (splitLines (d # cs)) \<noteq> [] \<and>
          last (last (splitLines (d # cs))) = last (d # cs)"
        by auto
      then have "last (consHead c (splitLines (d # cs))) \<noteq> [] \<and>
          last (last (consHead c (splitLines (d # cs)))) = last (last (splitLines (d # cs)))"
        by (intro last_consHead) (simp_all add: splitLines_not_Nil)
      with ih have "last (splitLines (c # d # cs)) \<noteq> [] \<and>
          last (last (splitLines (c # d # cs))) = last (d # cs)"
        unfolding e by simp
      then show ?thesis
        by simp
    qed
  qed
qed

lemma last_line_not_blank:
  assumes "s \<noteq> []" and "\<not> is_space (last s)"
  shows "\<not> blank (last (splitLines s))"
proof -
  from assms have "last s \<noteq> CHR 0x0A"
    using is_space_LF by auto
  with assms(1) have "last (splitLines s) \<noteq> []" "last (last (splitLines s)) = last s"
    using last_splitLines by auto
  with assms(2) show ?thesis
    by (metis blank_def last_in_set list_all_iff)
qed

section \<open>Properties of the Parser\<close>

subsection \<open>Cells and rows\<close>

text \<open>White space around a line changes no trimmed cell.\<close>

lemma comma_not_space: "\<not> is_space CHR '',''"
  by (simp add: is_space_def)

lemma blank_no_comma: "blank x \<Longrightarrow> CHR '','' \<notin> set x"
  using comma_not_space by (auto simp: blank_def list_all_iff)

lemma cells_blank_prefix:
  "blank x \<Longrightarrow> map trim (splitOn CHR '','' (x @ l)) = map trim (splitOn CHR '','' l)"
  using splitOn_not_Nil [of "CHR '',''" l]
  by (cases "splitOn CHR '','' l")
    (simp_all add: splitOn_append [of _ x l] splitOn_no_separator blank_no_comma trim_blank_prefix)

lemma cells_blank_suffix:
  assumes "blank w"
  shows "map trim (splitOn CHR '','' (l @ w)) = map trim (splitOn CHR '','' l)"
proof -
  let ?C = "splitOn CHR '','' l"
  have "splitOn CHR '','' (l @ w) = butlast ?C @ [last ?C @ w]"
    using assms by (simp add: splitOn_append [of _ l w] splitOn_no_separator blank_no_comma)
  then have "map trim (splitOn CHR '','' (l @ w)) = map trim (butlast ?C) @ [trim (last ?C)]"
    using assms by (simp add: trim_blank_suffix)
  also have "\<dots> = map trim (butlast ?C @ [last ?C])"
    by simp
  also have "\<dots> = map trim ?C"
    by (simp add: splitOn_not_Nil)
  finally show ?thesis .
qed

lemma cells_padded:
  "blank x \<Longrightarrow> blank w \<Longrightarrow>
   map trim (splitOn CHR '','' (x @ l @ w)) = map trim (splitOn CHR '','' l)"
  by (simp add: cells_blank_prefix cells_blank_suffix)

lemma trim_cellOr: "trim (cellOr cells i) = cellOr (map trim cells) i"
  by (simp add: cellOr_def trim_Nil_eq)

lemma buildRow_cong:
  "map trim cells = map trim cells' \<Longrightarrow> buildRow hs idx cells r = buildRow hs idx cells' r"
  by (induction hs arbitrary: idx r) (simp_all add: trim_cellOr)

lemma buildRow_other: "h \<notin> set hs \<Longrightarrow> buildRow hs idx cells r h = r h"
  by (induction hs arbitrary: idx r) (auto simp: setProp_def)

lemma buildRow_value:
  "distinct hs \<Longrightarrow> ''__proto__'' \<notin> set hs \<Longrightarrow> i < length hs \<Longrightarrow>
   buildRow hs idx cells r (hs ! i) = Some (trim (cellOr cells (idx + i)))"
proof (induction hs arbitrary: idx r i)
  case Nil
  then show ?case by simp
next
  case (Cons h hs)
  show ?case
  proof (cases i)
    case 0
    with Cons.prems show ?thesis
      by (auto simp: buildRow_other setProp_def)
  next
    case (Suc j)
    with Cons.prems Cons.IH [of j "Suc idx"] show ?thesis
      by simp
  qed
qed

lemma dom_buildRow: "dom (buildRow hs idx cells r) = dom r \<union> (set hs - {''__proto__''})"
  by (induction hs arbitrary: idx r) (auto simp: setProp_def split: if_splits)

lemma buildRow_trimmed:
  "buildRow hs idx cells r h = Some v \<Longrightarrow> r h = Some v \<or> trim v = v"
proof (induction hs arbitrary: idx r)
  case Nil
  then show ?case by simp
next
  case (Cons k hs)
  from Cons.prems Cons.IH [of "Suc idx" "setProp r k (trim (cellOr cells idx))"]
  have "setProp r k (trim (cellOr cells idx)) h = Some v \<or> trim v = v"
    by simp
  then show ?case
    by (auto simp: setProp_def trim_idem split: if_splits)
qed

lemma parseRows_one:
  "parseRows hs [l] = (if l = [] then [] else [buildRow hs 0 (splitOn CHR '','' l) Map.empty])"
  by (simp add: skip_test splitOn_Nil_iff Let_def)

lemma parseRows_Cons: "parseRows hs (l # ls) = parseRows hs [l] @ parseRows hs ls"
  by (simp add: Let_def)

lemma parseRows_append: "parseRows hs (xs @ ys) = parseRows hs xs @ parseRows hs ys"
proof (induction xs)
  case Nil
  then show ?case by simp
next
  case (Cons l xs)
  then show ?case
    using parseRows_Cons [of hs l "xs @ ys"] parseRows_Cons [of hs l xs] by simp
qed

lemma parseRows_filter:
  "parseRows hs ls =
     map (\<lambda>l. buildRow hs 0 (splitOn CHR '','' l) Map.empty) (filter (\<lambda>l. l \<noteq> []) ls)"
proof (induction ls)
  case Nil
  then show ?case by simp
next
  case (Cons l ls)
  then show ?case
    using parseRows_Cons [of hs l ls] by (simp add: parseRows_one del: parseRows.simps)
qed

lemma parseRows_padded:
  "blank w \<Longrightarrow> l @ w = [] \<or> \<not> blank (l @ w) \<Longrightarrow> parseRows hs [l @ w] = parseRows hs [l]"
  using buildRow_cong [OF cells_blank_suffix, of w hs 0 l Map.empty]
  by (auto simp: parseRows_one blank_append blank_Nil simp del: parseRows.simps)

subsection \<open>The trim of the whole text\<close>

lemma dropTrailingBlank_blank: "\<forall>l \<in> set ls. blank l \<Longrightarrow> dropTrailingBlank ls = []"
  by (simp add: dropTrailingBlank_def)

lemma dropTrailingBlank_append:
  assumes "\<not> blank l" and "\<forall>t \<in> set ts. blank t"
  shows "dropTrailingBlank (xs @ [l] @ ts) = xs @ [l]"
proof -
  have "dropWhile blank (rev ts @ (l # rev xs)) = dropWhile blank (l # rev xs)"
    using assms(2) by (intro dropWhile_append2) simp
  with assms(1) show ?thesis
    by (simp add: dropTrailingBlank_def)
qed

lemma dropTrailingBlank_decomp:
  "\<exists>ts. ls = dropTrailingBlank ls @ ts \<and> (\<forall>t \<in> set ts. blank t)"
proof
  have "rev ls = takeWhile blank (rev ls) @ dropWhile blank (rev ls)"
    by simp
  then have "ls = rev (dropWhile blank (rev ls)) @ rev (takeWhile blank (rev ls))"
    by (metis rev_append rev_rev_ident)
  moreover have "\<forall>t \<in> set (rev (takeWhile blank (rev ls))). blank t"
    by (auto dest: set_takeWhileD)
  ultimately show "ls = dropTrailingBlank ls @ rev (takeWhile blank (rev ls)) \<and>
      (\<forall>t \<in> set (rev (takeWhile blank (rev ls))). blank t)"
    by (simp add: dropTrailingBlank_def)
qed

lemma filter_dropTrailingBlank:
  assumes "\<forall>l \<in> set ls. l = [] \<or> \<not> blank l"
  shows "filter (\<lambda>l. l \<noteq> []) (dropTrailingBlank ls) = filter (\<lambda>l. l \<noteq> []) ls"
proof -
  obtain ts where ts: "ls = dropTrailingBlank ls @ ts" "\<forall>t \<in> set ts. blank t"
    using dropTrailingBlank_decomp by blast
  then have "set ts \<subseteq> set ls"
    by (metis set_append sup_ge2)
  with assms ts(2) have "\<forall>t \<in> set ts. t = []"
    by auto
  then have "filter (\<lambda>l. l \<noteq> []) ts = []"
    by (simp add: filter_empty_conv)
  then have "filter (\<lambda>l. l \<noteq> []) (dropTrailingBlank ls @ ts) =
      filter (\<lambda>l. l \<noteq> []) (dropTrailingBlank ls)"
    by simp
  with ts(1) show ?thesis
    by simp
qed

text \<open>
  When the first line of the text is not blank, the trim of the whole text removes
  white space before the first line and after the last line that is not blank, and
  with it every line after that one; what it leaves of the first and the last line
  gives the same trimmed cells.
\<close>

lemma parseCSV_untrimmed:
  assumes sl: "splitLines csv = header # body"
    and hdr: "\<not> blank header"
  shows "parseCSV csv = parseRows (map trim (splitOn CHR '','' header)) (dropTrailingBlank body)"
proof -
  let ?rest = "trimStart csv" and ?m = "trim csv"
  let ?R = "splitLines (trimStart csv)" and ?M = "splitLines (trim csv)"
  obtain a where a: "csv = a @ ?rest" "blank a"
    using trimStart_decomp [of csv] by blast
  obtain b where b: "?rest = ?m @ b" "blank b"
    using trimEnd_decomp [of ?rest] by (auto simp: trim_def)
  let ?A = "splitLines a" and ?B = "splitLines b"
  have "header \<in> set (splitLines csv)"
    by (simp add: sl)
  with hdr have nb: "\<not> blank csv"
    using blank_splitLines by blast
  then have m: "?m \<noteq> []"
    by (simp add: trim_Nil)
  with b have rest: "?rest \<noteq> []"
    by auto
  then have "\<not> is_space (hd ?rest)"
    by (rule hd_trimStart)
  then have "hd ?rest \<noteq> CHR 0x0A"
    using is_space_LF by auto
  then have "splitLines (a @ ?rest) =
      butlast ?A @ [last ?A @ hd ?R] @ tl ?R"
    by (intro splitLines_append) simp
  with a sl have s1: "header # body = butlast ?A @ [last ?A @ hd ?R] @ tl ?R"
    by simp
  have blankA: "\<forall>l \<in> set ?A. blank l"
    using a(2) blank_splitLines by blast
  have "butlast ?A = []"
  proof (rule ccontr)
    assume ne: "butlast ?A \<noteq> []"
    with s1 have "header = hd (butlast ?A)"
      by (cases "butlast ?A") auto
    with ne have "header \<in> set (butlast ?A)"
      by simp
    then have "header \<in> set ?A"
      by (rule in_set_butlastD)
    with blankA hdr show False by blast
  qed
  with s1 have header: "header = last ?A @ hd ?R" and body: "body = tl ?R"
    by simp_all
  have x: "blank (last ?A)"
    using blankA splitLines_not_Nil [of a] by simp
  from m have ns: "\<not> is_space (last ?m)"
    unfolding trim_def by (rule last_trimEnd)
  then have "last ?m \<noteq> CHR 0x0D"
    using is_space_CR by auto
  then have "splitLines (?m @ b) = butlast ?M @ [last ?M @ hd ?B] @ tl ?B"
    by (intro splitLines_append) simp
  with b have s2: "?R = butlast ?M @ [last ?M @ hd ?B] @ tl ?B"
    by simp
  have blankB: "\<forall>l \<in> set ?B. blank l"
    using b(2) blank_splitLines by blast
  have w: "blank (hd ?B)"
    using blankB splitLines_not_Nil [of b] by simp
  have tlB: "\<forall>l \<in> set (tl ?B). blank l"
    using blankB splitLines_not_Nil [of b] by (meson list.set_sel(2))
  obtain l0 Mr where M: "?M = l0 # Mr"
    using splitLines_not_Nil [of ?m] by (cases ?M) auto
  have pc: "parseCSV csv = parseRows (map trim (splitOn CHR '','' l0)) Mr"
    by (simp add: parseCSV_def M)
  show ?thesis
  proof (cases "Mr = []")
    case True
    with M s2 have R: "?R = (l0 @ hd ?B) # tl ?B"
      by simp
    with header have "header = last ?A @ l0 @ hd ?B"
      by simp
    with x w have hs: "map trim (splitOn CHR '','' header) = map trim (splitOn CHR '','' l0)"
      by (simp add: cells_padded)
    from R body have "body = tl ?B"
      by simp
    with tlB have "dropTrailingBlank body = []"
      by (simp add: dropTrailingBlank_blank)
    with pc hs True show ?thesis
      by simp
  next
    case False
    with M s2 have R: "?R = l0 # butlast Mr @ [last Mr @ hd ?B] @ tl ?B"
      by simp
    with header x have hs: "map trim (splitOn CHR '','' header) = map trim (splitOn CHR '','' l0)"
      by (simp add: cells_blank_prefix)
    let ?hs = "map trim (splitOn CHR '','' l0)"
    from R body have body': "body = butlast Mr @ [last Mr @ hd ?B] @ tl ?B"
      by simp
    from m ns have "\<not> blank (last ?M)"
      by (rule last_line_not_blank)
    with M False have lm: "\<not> blank (last Mr)"
      by simp
    then have nbl: "\<not> blank (last Mr @ hd ?B)"
      by (simp add: blank_append)
    from nbl tlB have d: "dropTrailingBlank body = butlast Mr @ [last Mr @ hd ?B]"
      unfolding body' by (rule dropTrailingBlank_append)
    from w nbl have p: "parseRows ?hs [last Mr @ hd ?B] = parseRows ?hs [last Mr]"
      by (intro parseRows_padded) simp_all
    have "parseRows ?hs (dropTrailingBlank body) =
        parseRows ?hs (butlast Mr) @ parseRows ?hs [last Mr]"
      by (simp only: d parseRows_append p)
    also have "\<dots> = parseRows ?hs (butlast Mr @ [last Mr])"
      by (simp only: parseRows_append)
    also from False have "\<dots> = parseRows ?hs Mr"
      by simp
    finally show ?thesis
      using pc hs by simp
  qed
qed

text \<open>
  Claim C4, as stated, fails whether a line of white space is counted as a data line
  or as a blank line: the text with the header \<open>a\<close> and the three lines "two
  spaces", \<open>1\<close>, "two spaces" has three lines that are not empty and one line that
  is not blank, and parses to two Records.
\<close>

theorem whitespace_lines_count_counterexample:
  "splitLines ''a\<newline>  \<newline>1\<newline>  '' = [''a'', ''  '', ''1'', ''  ''] \<and>
   length (filter (\<lambda>l. l \<noteq> []) [''  '', ''1'', ''  '']) = 3 \<and>
   length (filter (\<lambda>l. \<not> blank l) [''  '', ''1'', ''  '']) = 1 \<and>
   length (parseCSV ''a\<newline>  \<newline>1\<newline>  '') = 2"
  by (simp add: parseCSV_def trim_def trimStart_def trimEnd_def is_space_def blank_def
      cellOr_def setProp_def Let_def)

text \<open>
  Claim C4, amended. Let the lines of the input text be a well-formed header line (it
  is not blank, and its trimmed names are pairwise different and none is
  \<open>__proto__\<close>) followed by further lines. Then \<open>parseCSV\<close> returns exactly one
  Record per line that is not empty among the lines up to the last line that is not
  blank, in order: empty lines are excluded, and a line of white space counts unless
  it stands after the last line that is not blank, where the trim of the whole text
  removes it. The keys of each Record are the header names; the value of the
  \<open>i\<close>-th header is the trimmed \<open>i\<close>-th field of the line, and the empty string
  when the line has no \<open>i\<close>-th field; every value is trimmed. When no line is white
  space only, there is one Record per line that is not empty.
\<close>

theorem parseCSV_records:
  assumes "splitLines csv = header # body"
    and "\<not> blank header"
    and "hs = map trim (splitOn CHR '','' header)"
    and "distinct hs" and "''__proto__'' \<notin> set hs"
    and "dataLines = filter (\<lambda>l. l \<noteq> []) (dropTrailingBlank body)"
  shows "length (parseCSV csv) = length dataLines \<and>
         (\<forall>k < length dataLines.
            dom (parseCSV csv ! k) = set hs \<and>
            (\<forall>i < length hs.
               (parseCSV csv ! k) (hs ! i) =
                  Some (trim (cellOr (splitOn CHR '','' (dataLines ! k)) i)) \<and>
               (length (splitOn CHR '','' (dataLines ! k)) \<le> i \<longrightarrow>
                  (parseCSV csv ! k) (hs ! i) = Some [])) \<and>
            (\<forall>v \<in> ran (parseCSV csv ! k). trim v = v)) \<and>
         ((\<forall>l \<in> set body. l = [] \<or> \<not> blank l) \<longrightarrow>
            dataLines = filter (\<lambda>l. l \<noteq> []) body)"
proof -
  have p: "parseCSV csv = map (\<lambda>l. buildRow hs 0 (splitOn CHR '','' l) Map.empty) dataLines"
    using assms(1-3,6) by (simp add: parseCSV_untrimmed parseRows_filter del: parseRows.simps)
  have "dom (parseCSV csv ! k) = set hs \<and>
        (\<forall>i < length hs.
           (parseCSV csv ! k) (hs ! i) =
              Some (trim (cellOr (splitOn CHR '','' (dataLines ! k)) i)) \<and>
           (length (splitOn CHR '','' (dataLines ! k)) \<le> i \<longrightarrow>
              (parseCSV csv ! k) (hs ! i) = Some [])) \<and>
        (\<forall>v \<in> ran (parseCSV csv ! k). trim v = v)"
    if k: "k < length dataLines" for k
  proof -
    let ?cells = "splitOn CHR '','' (dataLines ! k)"
    from k have r: "parseCSV csv ! k = buildRow hs 0 ?cells Map.empty"
      by (simp add: p)
    have "dom (parseCSV csv ! k) = set hs"
      using assms(5) by (simp add: r dom_buildRow)
    moreover have "(parseCSV csv ! k) (hs ! i) = Some (trim (cellOr ?cells i))"
      if "i < length hs" for i
      using that assms(4,5) buildRow_value [of hs i 0 ?cells Map.empty] by (simp add: r)
    moreover have "trim (cellOr ?cells i) = []" if "length ?cells \<le> i" for i
      using that by (simp add: cellOr_def trim_Nil_eq)
    moreover have "trim v = v" if "v \<in> ran (parseCSV csv ! k)" for v
    proof -
      from that obtain h where "buildRow hs 0 ?cells Map.empty h = Some v"
        by (auto simp: ran_def r)
      then show ?thesis
        using buildRow_trimmed by fastforce
    qed
    ultimately show ?thesis by simp
  qed
  moreover have "length (parseCSV csv) = length dataLines"
    by (simp add: p)
  moreover have "dataLines = filter (\<lambda>l. l \<noteq> []) body"
    if "\<forall>l \<in> set body. l = [] \<or> \<not> blank l"
    using that assms(6) by (simp add: filter_dropTrailingBlank)
  ultimately show ?thesis by blast
qed

text \<open>The sample text: two Records, the second with an empty score.\<close>

theorem parseCSV_records_witness:
  "splitLines sampleCsv = [''First Name,Score'', ''Ann, 88 '', [], ''Bo'', []] \<and>
   \<not> blank ''First Name,Score'' \<and>
   map trim (splitOn CHR '','' ''First Name,Score'') = [''First Name'', ''Score''] \<and>
   filter (\<lambda>l. l \<noteq> []) (dropTrailingBlank [''Ann, 88 '', [], ''Bo'', []]) = [''Ann, 88 '', ''Bo''] \<and>
   \<not> blank ''Ann, 88 '' \<and> \<not> blank ''Bo'' \<and>
   filter (\<lambda>l. l \<noteq> []) [''Ann, 88 '', [], ''Bo'', []] = [''Ann, 88 '', ''Bo''] \<and>
   length (parseCSV sampleCsv) = 2 \<and>
   dom (parseCSV sampleCsv ! 0) = {''First Name'', ''Score''} \<and>
   (parseCSV sampleCsv ! 0) ''First Name'' = Some ''Ann'' \<and>
   (parseCSV sampleCsv ! 0) ''Score'' = Some ''88'' \<and>
   (parseCSV sampleCsv ! 1) ''First Name'' = Some ''Bo'' \<and>
   (parseCSV sampleCsv ! 1) ''Score'' = Some []"
proof -
  have sl: "splitLines sampleCsv = ''First Name,Score'' # [''Ann, 88 '', [], ''Bo'', []]"
    by (simp add: sampleCsv_def)
  have nb: "\<not> blank ''First Name,Score''"
    by (simp add: blank_def is_space_def)
  have hs: "[''First Name'', ''Score''] = map trim (splitOn CHR '','' ''First Name,Score'')"
    by (simp add: trim_def trimStart_def trimEnd_def is_space_def)
  have d: "distinct [''First Name'', ''Score'']" and np: "''__proto__'' \<notin> set [''First Name'', ''Score'']"
    by simp_all
  have dl: "[''Ann, 88 '', ''Bo''] =
      filter (\<lambda>l. l \<noteq> []) (dropTrailingBlank [''Ann, 88 '', [], ''Bo'', []])"
    by (simp add: dropTrailingBlank_def blank_def is_space_def)
  note r = parseCSV_records [OF sl nb hs d np dl]
  from r have len: "length (parseCSV sampleCsv) = 2"
    by simp
  from r have r0: "dom (parseCSV sampleCsv ! 0) = set [''First Name'', ''Score''] \<and>
      (\<forall>i < 2. (parseCSV sampleCsv ! 0) ([''First Name'', ''Score''] ! i) =
         Some (trim (cellOr (splitOn CHR '','' ''Ann, 88 '') i)))"
    by simp
  from r have r1: "\<forall>i < 2. (parseCSV sampleCsv ! 1) ([''First Name'', ''Score''] ! i) =
         Some (trim (cellOr (splitOn CHR '','' ''Bo'') i))"
    by simp
  note v0 = r0 [THEN conjunct2, rule_format] and v1 = r1 [rule_format]
  have a: "(parseCSV sampleCsv ! 0) ''First Name'' = Some ''Ann''"
    using v0 [of 0] by (simp add: trim_def trimStart_def trimEnd_def is_space_def cellOr_def)
  have b: "(parseCSV sampleCsv ! 0) ''Score'' = Some ''88''"
    using v0 [of 1] by (simp add: trim_def trimStart_def trimEnd_def is_space_def cellOr_def)
  have c: "(parseCSV sampleCsv ! 1) ''First Name'' = Some ''Bo''"
    using v1 [of 0] by (simp add: trim_def trimStart_def trimEnd_def is_space_def cellOr_def)
  have e: "(parseCSV sampleCsv ! 1) ''Score'' = Some []"
    using v1 [of 1] by (simp add: trim_def trimStart_def trimEnd_def is_space_def cellOr_def)
  have bl: "\<forall>l \<in> set [''Ann, 88 '', [], ''Bo'', []]. l = [] \<or> \<not> blank l"
    by (simp add: blank_def is_space_def)
  with r have "[''Ann, 88 '', ''Bo''] = filter (\<lambda>l. l \<noteq> []) [''Ann, 88 '', [], ''Bo'', []]"
    by blast
  then have f: "filter (\<lambda>l. l \<noteq> []) [''Ann, 88 '', [], ''Bo'', []] = [''Ann, 88 '', ''Bo'']"
    by (rule sym)
  from r0 have d0: "dom (parseCSV sampleCsv ! 0) = {''First Name'', ''Score''}"
    by simp
  have nbl: "\<not> blank ''Ann, 88 '' \<and> \<not> blank ''Bo''"
    by (simp add: blank_def is_space_def)
  from sl nb hs [symmetric] dl [symmetric] nbl f len d0 a b c e show ?thesis
    by blast
qed

subsection \<open>Lines of white space\<close>

lemma buildRow_blank_line:
  "\<forall>c \<in> set cells. blank c \<Longrightarrow> h \<in> set hs \<Longrightarrow> h \<noteq> ''__proto__'' \<Longrightarrow>
   buildRow hs idx cells r h = Some []"
proof (induction hs arbitrary: idx r)
  case Nil
  then show ?case by simp
next
  case (Cons k hs)
  from Cons.prems(1) have t: "trim (cellOr cells idx) = []"
    by (simp add: cellOr_def trim_Nil blank_Nil)
  show ?case
  proof (cases "h \<in> set hs")
    case True
    with Cons show ?thesis by simp
  next
    case False
    with Cons.prems have "h = k" by simp
    with False Cons.prems(3) show ?thesis
      by (simp add: buildRow_other setProp_def t)
  qed
qed

lemma parseRows_concat: "parseRows hs ls = concat (map (\<lambda>l. parseRows hs [l]) ls)"
proof (induction ls)
  case Nil
  then show ?case by simp
next
  case (Cons l ls)
  then show ?case
    using parseRows_Cons [of hs l ls] by (simp del: parseRows.simps)
qed

text \<open>
  Claim C9, as stated, fails. A line of white space at the end of the text is removed
  by the trim of the whole text and gives no Record: the text of the header \<open>a\<close> and
  the line of two spaces parses to no Record at all. And a header named
  \<open>__proto__\<close> is no key of the Record that a line of white space gives.
\<close>

theorem trailing_whitespace_line_counterexample:
  "splitLines ''a\<newline>  '' = [''a'', ''  ''] \<and> blank ''  '' \<and> ''  '' \<noteq> [] \<and>
   parseCSV ''a\<newline>  '' = [] \<and>
   splitLines ''__proto__,b\<newline>  \<newline>1,2'' = [''__proto__,b'', ''  '', ''1,2''] \<and>
   (parseCSV ''__proto__,b\<newline>  \<newline>1,2'' ! 0) ''__proto__'' = None"
  by (simp add: parseCSV_def trim_def trimStart_def trimEnd_def is_space_def blank_def
      cellOr_def setProp_def Let_def)

text \<open>
  Claim C9, amended. For every input text whose first line is not blank, each of the
  lines after the first up to the last line that is not blank gives its Records on
  its own; such a line gives no Record exactly when it is empty; and such a line that
  is not empty and holds white space only gives one Record, in which every header
  other than \<open>__proto__\<close> maps to the empty string.
\<close>

theorem whitespace_line_is_a_record:
  assumes "splitLines csv = header # body"
    and "\<not> blank header"
    and "hs = map trim (splitOn CHR '','' header)"
  shows "parseCSV csv = concat (map (\<lambda>l. parseRows hs [l]) (dropTrailingBlank body)) \<and>
         (\<forall>l \<in> set (dropTrailingBlank body).
            (parseRows hs [l] = [] \<longleftrightarrow> l = []) \<and>
            (l \<noteq> [] \<and> blank l \<longrightarrow>
               (\<exists>r. parseRows hs [l] = [r] \<and>
                  (\<forall>h \<in> set hs. h \<noteq> ''__proto__'' \<longrightarrow> r h = Some []))))"
proof -
  have "parseCSV csv = concat (map (\<lambda>l. parseRows hs [l]) (dropTrailingBlank body))"
    using assms parseRows_concat [of hs "dropTrailingBlank body"]
    by (simp add: parseCSV_untrimmed)
  moreover have "parseRows hs [l] = [] \<longleftrightarrow> l = []" for l
    by (simp add: parseRows_one del: parseRows.simps)
  moreover have "\<exists>r. parseRows hs [l] = [r] \<and>
      (\<forall>h \<in> set hs. h \<noteq> ''__proto__'' \<longrightarrow> r h = Some [])"
    if "l \<noteq> []" and "blank l" for l
  proof -
    from that have "splitOn CHR '','' l = [l]"
      by (simp add: splitOn_no_separator blank_no_comma)
    with that show ?thesis
      by (simp add: parseRows_one buildRow_blank_line del: parseRows.simps)
  qed
  ultimately show ?thesis by blast
qed

text \<open>A line of two spaces after the header, and a line of one space at the end.\<close>

theorem whitespace_line_is_a_record_witness:
  "splitLines ''a,b\<newline>  \<newline>1,2\<newline> '' = [''a,b'', ''  '', ''1,2'', '' ''] \<and>
   dropTrailingBlank [''  '', ''1,2'', '' ''] = [''  '', ''1,2''] \<and>
   blank ''  '' \<and>
   length (parseCSV ''a,b\<newline>  \<newline>1,2\<newline> '') = 2 \<and>
   (parseCSV ''a,b\<newline>  \<newline>1,2\<newline> '' ! 0) ''a'' = Some [] \<and>
   (parseCSV ''a,b\<newline>  \<newline>1,2\<newline> '' ! 0) ''b'' = Some []"
proof -
  have sl: "splitLines ''a,b\<newline>  \<newline>1,2\<newline> '' = ''a,b'' # [''  '', ''1,2'', '' '']"
    by simp
  have nb: "\<not> blank ''a,b''"
    by (simp add: blank_def is_space_def)
  have hs: "[''a'', ''b''] = map trim (splitOn CHR '','' ''a,b'')"
    by (simp add: trim_def trimStart_def trimEnd_def is_space_def)
  have bl: "blank ''  ''"
    by (simp add: blank_def is_space_def)
  have dt: "dropTrailingBlank [''  '', ''1,2'', '' ''] = [''  '', ''1,2'']"
    by (simp add: dropTrailingBlank_def blank_def is_space_def)
  note r = whitespace_line_is_a_record [OF sl nb hs, unfolded dt]
  from r bl obtain r0 where r0: "parseRows [''a'', ''b''] [''  ''] = [r0]"
      "r0 ''a'' = Some []" "r0 ''b'' = Some []"
    by fastforce
  from r have "parseRows [''a'', ''b''] [''1,2''] \<noteq> []"
    by simp
  then obtain r1 rs where "parseRows [''a'', ''b''] [''1,2''] = r1 # rs"
    by (cases "parseRows [''a'', ''b''] [''1,2'']") auto
  moreover have "length (parseRows [''a'', ''b''] [''1,2'']) = 1"
    by (simp add: Let_def)
  ultimately have "parseRows [''a'', ''b''] [''1,2''] = [r1]"
    by simp
  with r r0 have "parseCSV ''a,b\<newline>  \<newline>1,2\<newline> '' = [r0, r1]"
    by simp
  with sl bl dt r0 show ?thesis
    by simp
qed

section \<open>Properties of the Fetcher\<close>

lemma tryProxies_unusable:
  "usable (net (targetOf p url)) = None \<Longrightarrow>
   \<exists>le'. tryProxies net url (p # ps) le = requested (targetOf p url) (tryProxies net url ps le')"
  by (auto simp: usable_def Let_def trim_Nil blank_Nil split: response.splits sum.splits if_splits)

lemma tryProxies_usable:
  "usable (net (targetOf p url)) = Some body \<Longrightarrow>
   tryProxies net url (p # ps) le = (Inr body, [targetOf p url])"
  by (auto simp: usable_def Let_def trim_Nil blank_Nil split: response.splits sum.splits if_splits)

lemma tryProxies_first_usable:
  assumes "k < length ps"
    and "usable (net (targetOf (ps ! k) url)) = Some body"
    and "\<forall>j<k. usable (net (targetOf (ps ! j) url)) = None"
  shows "tryProxies net url ps le = (Inr body, take (Suc k) (map (\<lambda>p. targetOf p url) ps))"
  using assms
proof (induction ps arbitrary: k le)
  case Nil
  then show ?case by simp
next
  case (Cons p ps)
  show ?case
  proof (cases k)
    case 0
    with Cons.prems show ?thesis
      by (simp add: tryProxies_usable del: tryProxies.simps)
  next
    case (Suc k')
    with Cons.prems have "usable (net (targetOf p url)) = None"
      by auto
    then obtain le' where
      step: "tryProxies net url (p # ps) le = requested (targetOf p url) (tryProxies net url ps le')"
      using tryProxies_unusable by blast
    from Suc Cons.prems have "tryProxies net url ps le' =
        (Inr body, take (Suc k') (map (\<lambda>p. targetOf p url) ps))"
      by (intro Cons.IH) auto
    with step Suc show ?thesis
      by (simp add: requested_def del: tryProxies.simps)
  qed
qed

lemma tryProxies_none_usable:
  "\<forall>p \<in> set ps. usable (net (targetOf p url)) = None \<Longrightarrow>
   \<exists>err. tryProxies net url ps le = (Inl err, map (\<lambda>p. targetOf p url) ps)"
proof (induction ps arbitrary: le)
  case Nil
  then show ?case by simp
next
  case (Cons p ps)
  then obtain le' where
    step: "tryProxies net url (p # ps) le = requested (targetOf p url) (tryProxies net url ps le')"
    using tryProxies_unusable [of net p url ps le] by auto
  from Cons obtain err where "tryProxies net url ps le' = (Inl err, map (\<lambda>p. targetOf p url) ps)"
    by fastforce
  with step show ?case
    by (simp add: requested_def del: tryProxies.simps)
qed

lemma targets_eq:
  "targets url = [url, ''https://corsproxy.io/?'' @ encodeURIComponent url,
     ''https://api.allorigins.win/raw?url='' @ encodeURIComponent url]"
  by (simp add: targets_def proxies_def targetOf_def)

lemma length_encodeURIComponent: "length url \<le> length (encodeURIComponent url)"
proof (induction url)
  case Nil
  then show ?case by (simp add: encodeURIComponent_def)
next
  case (Cons c cs)
  have "1 \<le> length (encodeChar c)"
    by (simp add: encodeChar_def percent_def Let_def)
  with Cons show ?case by (simp add: encodeURIComponent_def)
qed

lemma proxy_target_fresh: "p \<noteq> [] \<Longrightarrow> p @ encodeURIComponent url \<noteq> url"
proof
  assume "p \<noteq> []" and "p @ encodeURIComponent url = url"
  then have "length (p @ encodeURIComponent url) = length url" and "0 < length p"
    by simp_all
  with length_encodeURIComponent [of url] show False
    by simp
qed

lemma distinct_targets: "distinct (targets url)"
  using proxy_target_fresh [of "''https://corsproxy.io/?''" url]
    proxy_target_fresh [of "''https://api.allorigins.win/raw?url=''" url]
  by (simp add: targets_eq)

text \<open>When no strategy is usable, \<open>fetchCSV\<close> throws after the three requests.\<close>

lemma fetchCSV_none_usable:
  "\<forall>t \<in> set (targets url). usable (net t) = None \<Longrightarrow>
   \<exists>err. fetchCSV net url = (Inl err, targets url)"
  using tryProxies_none_usable [of proxies net url None]
  by (simp add: fetchCSV_def targets_def)

lemma third_target_fresh:
  "''https://api.allorigins.win/raw?url='' @ encodeURIComponent url \<noteq> url"
  "''https://api.allorigins.win/raw?url='' @ encodeURIComponent url \<noteq>
     ''https://corsproxy.io/?'' @ encodeURIComponent url"
proof -
  show "''https://api.allorigins.win/raw?url='' @ encodeURIComponent url \<noteq> url"
  proof
    assume "''https://api.allorigins.win/raw?url='' @ encodeURIComponent url = url"
    then have "length (''https://api.allorigins.win/raw?url='' @ encodeURIComponent url) = length url"
      by (rule arg_cong)
    with length_encodeURIComponent [of url] show False
      by simp
  qed
  show "''https://api.allorigins.win/raw?url='' @ encodeURIComponent url \<noteq>
     ''https://corsproxy.io/?'' @ encodeURIComponent url"
    by simp
qed

text \<open>
  Claim C2. \<open>fetchCSV\<close> requests the direct address first, then the two proxy prefixes
  followed by the URL-encoded address. When strategy \<open>k\<close> is the first whose response
  is successful with a body that is not empty, \<open>fetchCSV\<close> returns that body, and the
  requests made are those of the strategies up to \<open>k\<close>, in order: no later strategy is
  attempted. In particular, when the direct request is answered with a status outside
  200 to 299 and the first proxy succeeds with a body that is not empty, the result is
  that body and the second proxy is not requested.
\<close>

theorem fetchCSV_first_usable:
  "targets url = [url, ''https://corsproxy.io/?'' @ encodeURIComponent url,
     ''https://api.allorigins.win/raw?url='' @ encodeURIComponent url] \<and>
   (k < length (targets url) \<and> usable (net (targets url ! k)) = Some body \<and>
      (\<forall>j<k. usable (net (targets url ! j)) = None) \<longrightarrow>
    fetchCSV net url = (Inr body, take (Suc k) (targets url))) \<and>
   (net url = Resolved status b \<and> \<not> ok status \<and>
      net (''https://corsproxy.io/?'' @ encodeURIComponent url) = Resolved status' (Inr body') \<and>
      ok status' \<and> \<not> blank body' \<longrightarrow>
    fetchCSV net url = (Inr body', [url, ''https://corsproxy.io/?'' @ encodeURIComponent url]) \<and>
    ''https://api.allorigins.win/raw?url='' @ encodeURIComponent url \<notin> set (snd (fetchCSV net url)))"
proof (intro conjI impI)
  show "targets url = [url, ''https://corsproxy.io/?'' @ encodeURIComponent url,
     ''https://api.allorigins.win/raw?url='' @ encodeURIComponent url]"
    by (rule targets_eq)
next
  assume a: "k < length (targets url) \<and> usable (net (targets url ! k)) = Some body \<and>
      (\<forall>j<k. usable (net (targets url ! j)) = None)"
  then have "k < length proxies" by (simp add: targets_def)
  with a show "fetchCSV net url = (Inr body, take (Suc k) (targets url))"
    unfolding fetchCSV_def targets_def
    by (intro tryProxies_first_usable) auto
next
  assume a: "net url = Resolved status b \<and> \<not> ok status \<and>
      net (''https://corsproxy.io/?'' @ encodeURIComponent url) = Resolved status' (Inr body') \<and>
      ok status' \<and> \<not> blank body'"
  then have u0: "usable (net (targetOf (proxies ! 0) url)) = None"
    by (simp add: usable_def proxies_def targetOf_def split: sum.splits)
  from a have u1: "usable (net (targetOf (proxies ! 1) url)) = Some body'"
    by (simp add: usable_def proxies_def targetOf_def)
  have "tryProxies net url proxies None =
      (Inr body', take (Suc 1) (map (\<lambda>p. targetOf p url) proxies))"
    using u0 u1 by (intro tryProxies_first_usable) (auto simp: proxies_def)
  then show r: "fetchCSV net url = (Inr body', [url, ''https://corsproxy.io/?'' @ encodeURIComponent url])"
    by (simp add: fetchCSV_def proxies_def targetOf_def)
  show "''https://api.allorigins.win/raw?url='' @ encodeURIComponent url \<notin> set (snd (fetchCSV net url))"
    using third_target_fresh [of url] by (simp add: r)
qed

text \<open>The direct request answered with 404, the first proxy with a body.\<close>

theorem fetchCSV_first_usable_witness:
  "encodeURIComponent ''http://h/s.csv'' = ''http%3A%2F%2Fh%2Fs.csv'' \<and>
   net1 ''http://h/s.csv'' = Resolved 404 (Inr ''Not Found'') \<and> \<not> ok 404 \<and>
   net1 (''https://corsproxy.io/?'' @ encodeURIComponent ''http://h/s.csv'') =
     Resolved 200 (Inr ''a,b'') \<and> ok 200 \<and> \<not> blank ''a,b'' \<and>
   usable (net1 (targets ''http://h/s.csv'' ! 0)) = None \<and>
   usable (net1 (targets ''http://h/s.csv'' ! 1)) = Some ''a,b'' \<and>
   fetchCSV net1 ''http://h/s.csv'' =
     (Inr ''a,b'', [''http://h/s.csv'', ''https://corsproxy.io/?http%3A%2F%2Fh%2Fs.csv'']) \<and>
   ''https://api.allorigins.win/raw?url=http%3A%2F%2Fh%2Fs.csv''
     \<notin> set (snd (fetchCSV net1 ''http://h/s.csv''))"
proof -
  have enc: "encodeURIComponent ''http://h/s.csv'' = ''http%3A%2F%2Fh%2Fs.csv''"
    by (simp add: encodeURIComponent_def encodeChar_def unreserved_def percent_def hexDigit_def
        Let_def)
  have n0: "net1 ''http://h/s.csv'' = Resolved 404 (Inr ''Not Found'') \<and> \<not> ok 404"
    by (simp add: net1_def ok_def)
  have n1: "net1 (''https://corsproxy.io/?'' @ encodeURIComponent ''http://h/s.csv'') =
     Resolved 200 (Inr ''a,b'') \<and> ok 200 \<and> \<not> blank ''a,b''"
    by (simp add: enc net1_def ok_def blank_def is_space_def)
  have u0: "usable (net1 (targets ''http://h/s.csv'' ! 0)) = None"
    by (simp add: targets_eq net1_def usable_def ok_def)
  have u1: "usable (net1 (targets ''http://h/s.csv'' ! 1)) = Some ''a,b''"
    by (simp add: targets_eq enc net1_def usable_def ok_def blank_def is_space_def)
  have "\<forall>j<1. usable (net1 (targets ''http://h/s.csv'' ! j)) = None"
    using u0 by simp
  note t = fetchCSV_first_usable [where url = "''http://h/s.csv''" and k = 1 and net = net1
      and body = "''a,b''" and status = 404 and b = "Inr ''Not Found''" and status' = 200
      and body' = "''a,b''"]
  from t u0 u1 have g: "fetchCSV net1 ''http://h/s.csv'' =
      (Inr ''a,b'', take (Suc 1) (targets ''http://h/s.csv''))"
    by (simp add: targets_eq)
  from t n0 n1 have p: "''https://api.allorigins.win/raw?url='' @ encodeURIComponent ''http://h/s.csv''
      \<notin> set (snd (fetchCSV net1 ''http://h/s.csv''))"
    by blast
  from enc n0 n1 u0 u1 g p show ?thesis
    by (simp add: targets_eq)
qed

section \<open>Properties of the Renderer\<close>

lemma appendRows_eq:
  "appendRows es index kids =
     kids @ map (\<lambda>(index, e). Row (renderRow e index)) (enumerate index es)"
  by (induction es arbitrary: index kids) simp_all

lemma renderLeaderboard_present:
  "leaderboard_body pg = Some kids \<Longrightarrow>
   renderLeaderboard data pg = pg\<lparr>leaderboard_body := Some (rowsOf data)\<rparr>"
  by (simp add: renderLeaderboard_def rowsOf_def appendRows_eq)

lemma length_rowsOf: "length (rowsOf data) = length data"
  by (simp add: rowsOf_def)

text \<open>
  Claim C7. When the page has the display surface, a call of \<open>renderLeaderboard\<close>
  leaves in it exactly one row per Entry of its argument, whatever the surface held
  before, and writes nothing else; a second call leaves the rows of the second list
  only. Called with a list of length 5 and then with a list of length 2, it leaves
  exactly 2 rows.
\<close>

theorem renderLeaderboard_replaces:
  assumes "leaderboard_body pg = Some kids"
  shows "leaderboard_body (renderLeaderboard d pg) = Some (rowsOf d) \<and>
         length (rowsOf d) = length d \<and>
         leaderboard_body (renderLeaderboard d' (renderLeaderboard d pg)) = Some (rowsOf d') \<and>
         (length d = 5 \<and> length d' = 2 \<longrightarrow>
            (\<exists>rows. leaderboard_body (renderLeaderboard d' (renderLeaderboard d pg)) = Some rows
               \<and> length rows = 2)) \<and>
         console (renderLeaderboard d pg) = console pg"
  using assms by (simp add: renderLeaderboard_present length_rowsOf)

text \<open>A surface holding a placeholder, rendered with five entries and then with two.\<close>

theorem renderLeaderboard_replaces_witness:
  "leaderboard_body \<lparr> leaderboard_body = Some [Other ''Loading''], console = [] \<rparr>
     = Some [Other ''Loading''] \<and>
   length (map (sampleEntry ''p'') [9, 8, 7, 6, 5]) = 5 \<and>
   length (map (sampleEntry ''q'') [4, 3]) = 2 \<and>
   leaderboard_body
     (renderLeaderboard (map (sampleEntry ''q'') [4, 3])
       (renderLeaderboard (map (sampleEntry ''p'') [9, 8, 7, 6, 5])
          \<lparr> leaderboard_body = Some [Other ''Loading''], console = [] \<rparr>))
     = Some [Row (renderRow (sampleEntry ''q'' 4) 0), Row (renderRow (sampleEntry ''q'' 3) 1)]"
  using renderLeaderboard_replaces
    [where pg = "\<lparr> leaderboard_body = Some [Other ''Loading''], console = [] \<rparr>"
       and kids = "[Other ''Loading'']"
       and d = "map (sampleEntry ''p'') [9, 8, 7, 6, 5]"
       and d' = "map (sampleEntry ''q'') [4, 3]"]
  by (simp add: rowsOf_def enumerate_eq_zip upt_rec)

section \<open>Properties of the refresh cycle\<close>

text \<open>
  Claim C6. Of the four stages only the Fetcher can fail: the Parser, the Transformer
  and the Renderer have no \<open>throw\<close> and call nothing that throws on their inputs, so
  they are total functions here. When the Fetcher fails, \<open>refreshLeaderboard\<close> writes
  the error to the console and leaves the display surface as it was. After any cycle
  the surface is what it was before, or holds the complete rendering of the fetched
  text: there is no partial render.
\<close>

theorem refresh_failure_keeps_display:
  "(fst (fetchCSV net SHEET_CSV_URL) = Inl err \<longrightarrow>
      leaderboard_body (refreshLeaderboard net pg) = leaderboard_body pg \<and>
      console (refreshLeaderboard net pg) = console pg @ [err]) \<and>
   (leaderboard_body (refreshLeaderboard net pg) = leaderboard_body pg \<or>
      (\<exists>csv. fst (fetchCSV net SHEET_CSV_URL) = Inr csv \<and>
         console (refreshLeaderboard net pg) = console pg \<and>
         leaderboard_body (refreshLeaderboard net pg) =
           Some (rowsOf (transformData (parseCSV csv)))))"
proof (cases "fst (fetchCSV net SHEET_CSV_URL)")
  case (Inl e)
  then show ?thesis by (simp add: refreshLeaderboard_def)
next
  case (Inr csv)
  show ?thesis
  proof (cases "leaderboard_body pg")
    case None
    with Inr show ?thesis by (simp add: refreshLeaderboard_def renderLeaderboard_def)
  next
    case (Some kids)
    with Inr show ?thesis
      by (simp add: refreshLeaderboard_def renderLeaderboard_present)
  qed
qed

text \<open>A cycle without network, on a surface holding a placeholder.\<close>

theorem refresh_failure_keeps_display_witness:
  "fst (fetchCSV offline SHEET_CSV_URL) = Inl (TypeError ''Failed to fetch'') \<and>
   leaderboard_body (refreshLeaderboard offline
      \<lparr> leaderboard_body = Some [Other ''Loading''], console = [] \<rparr>) = Some [Other ''Loading''] \<and>
   console (refreshLeaderboard offline
      \<lparr> leaderboard_body = Some [Other ''Loading''], console = [] \<rparr>) = [TypeError ''Failed to fetch'']"
proof -
  have h: "fst (fetchCSV offline SHEET_CSV_URL) = Inl (TypeError ''Failed to fetch'')"
    by (simp add: fetchCSV_def proxies_def offline_def requested_def Let_def)
  from refresh_failure_keeps_display
    [where net = offline and err = "TypeError ''Failed to fetch''"
       and pg = "\<lparr> leaderboard_body = Some [Other ''Loading''], console = [] \<rparr>"] h
  show ?thesis by simp
qed

section \<open>The example of the specification\<close>

text \<open>
  The end-to-end example of section 8 of the specification, computed by the
  definitions above: the two data rows are ranked by score, and the first rendered row
  is Bo Ray with rank 1 and score 95.
\<close>

lemma specification_example:
  "transformData (parseCSV
     ''First Name,Last Name,Dealership,Total Score\<newline>Ann,Lee,Acme,88\<newline>Bo,Ray,Acme,95'') =
   [\<lparr> name = ''Bo Ray'', dealership = Some ''Acme'', score = Fin 95 \<rparr>,
    \<lparr> name = ''Ann Lee'', dealership = Some ''Acme'', score = Fin 88 \<rparr>]"
  by (simp add: trim_def trimStart_def trimEnd_def is_space_def parseCSV_def cellOr_def
      setProp_def transformData_def sortArray_def compareFn_def toEntry_def firstName_def
      lastName_def dealershipOf_def scoreStr_def or_else_def truthy_def elementText_def
      parseFloat_def ToString_def unsignedLiteral_def isDigit_def digitsValue_def
      exponentPart_def signedInteger_def decimalToNumber_def roundRat_def roundRatio_def
      binaryExponent_def roundHalfEven_def scale2_def floorLog2.simps Let_def)

lemma specification_example_rendered:
  "leaderboard_body (renderLeaderboard
     [\<lparr> name = ''Bo Ray'', dealership = Some ''Acme'', score = Fin 95 \<rparr>,
      \<lparr> name = ''Ann Lee'', dealership = Some ''Acme'', score = Fin 88 \<rparr>]
     \<lparr> leaderboard_body = Some [], console = [] \<rparr>) =
   Some [Row \<lparr> rowClass = ''rank-1'', badgeBg = ''#3893B7'', badgeBorder = ''#21A4D2'',
               badgeColor = ''#FCF7EF'', badgeRank = 1, nameText = ''Bo Ray'',
               dealershipSmallText = ''Acme'', dealerText = ''Acme'', scoreValue = Fin 95 \<rparr>,
         Row \<lparr> rowClass = ''rank-2'', badgeBg = ''#E8F4F8'', badgeBorder = ''#3893B7'',
               badgeColor = ''#3893B7'', badgeRank = 2, nameText = ''Ann Lee'',
               dealershipSmallText = ''Acme'', dealerText = ''Acme'', scoreValue = Fin 88 \<rparr>]"
  by (simp add: renderLeaderboard_def renderRow_def elementText_def)

end
